theory Spec2Isabelle
  imports Main
begin

section \<open>Data model\<close>

text \<open>
  Chats are identified by the numeric id Telegram gives them; the bot stores
  \<^verbatim>\<open>str(id)\<close>, and formats the integer of a migration notice into the same
  key, so the model keeps the integer. Feeds are identified by their URL.
\<close>

type_synonym chat_id = int
type_synonym url = string

text \<open>
  One item of \<^verbatim>\<open>data.entries\<close>. Every key may be missing from the
  dictionary feedparser returns, hence the options. \<open>e_content\<close> stands for
  \<^verbatim>\<open>entry.content[0]["value"]\<close>.
\<close>

record entry =
  e_id :: "string option"
  e_link :: "string option"
  e_title :: "string option"
  e_content :: "string option"
  e_summary :: "string option"

text \<open>
  The value of \<^verbatim>\<open>feedparser.parse(url)\<close>, restricted to what the bot reads:
  \<^verbatim>\<open>data.feed["link"]\<close>, \<^verbatim>\<open>data.feed["title"]\<close>, \<^verbatim>\<open>data.href\<close>,
  \<^verbatim>\<open>data.link\<close> (read at the top level of the result, not inside
  \<^verbatim>\<open>data.feed\<close>), \<^verbatim>\<open>data["status"]\<close>, \<^verbatim>\<open>data.bozo_exception\<close> and
  \<^verbatim>\<open>data.entries\<close>.
\<close>

record parsed =
  d_feed_link :: "string option"
  d_feed_title :: "string option"
  d_href :: url
  d_link :: "string option"
  d_status :: "int option"
  d_bozo_exception :: "string option"
  d_entries :: "entry list"

text \<open>
  What \<^verbatim>\<open>bot.sendMessage\<close> does: it returns, or raises one of the classes of
  \<^verbatim>\<open>telegram.error\<close>. \<open>OtherError\<close> is any class the loop of
  \<^verbatim>\<open>check_feed\<close> has no handler for.
\<close>

datatype send_result =
  Sent
  | Unauthorized
  | ChatMigrated chat_id
  | TimedOut
  | BadRequest string
  | OtherError

datatype exn =
  AttributeError
  | KeyError
  | IndexError
  | ValueError
  | ResponseError
  | TelegramError send_result

text \<open>Lines written at level WARNING or ERROR; INFO lines are not modelled.\<close>

datatype log_line =
  Warn_http_code url int
  | Warn_not_valid url string
  | Warn_chat_gone chat_id
  | Error_bad_request string

text \<open>
  The Redis database under the prefix \<^verbatim>\<open>pythonbot:rss:\<close>, one component per
  kind of key: \<^verbatim>\<open>{chat}\<close> (a set of feed URLs), \<^verbatim>\<open>{url}:subs\<close> (a set of chat
  ids) and \<^verbatim>\<open>{url}:last_entry\<close> (a string). Redis has no empty set: a set key
  exists iff the set has a member, so a missing key is the empty set here.
  \<open>sent\<close> is the list of delivery attempts made through \<^verbatim>\<open>bot.sendMessage\<close>
  inside \<^verbatim>\<open>check_feed\<close>, oldest first, and \<open>logged\<close> the logger's output.
\<close>

record state =
  chat_feeds :: "chat_id \<Rightarrow> url set"
  feed_subs :: "url \<Rightarrow> chat_id set"
  last_entry :: "url \<Rightarrow> string option"
  sent :: "(chat_id \<times> string) list"
  logged :: "log_line list"

text \<open>
  The collaborators, as parameters:
  \<^item> \<open>parse\<close> is \<^verbatim>\<open>feedparser.parse\<close>;
  \<^item> \<open>sendMessage\<close> is the transport: its answer may depend on every earlier
    attempt (the first argument) as well as on the recipient and the text;
  \<^item> \<open>getChat\<close> is \<^verbatim>\<open>bot.getChat(name).id\<close>, \<open>None\<close> when it raises BadRequest;
  \<^item> \<open>bot_status\<close> is \<^verbatim>\<open>bot.getChatMember(chat, bot.id).status\<close>;
  \<^item> \<open>list_chats\<close> and \<open>list_feeds\<close> give the order in which Python iterates over
    the set that \<^verbatim>\<open>smembers\<close> returned;
  \<^item> \<open>netloc\<close> is \<^verbatim>\<open>urlparse(link).netloc\<close>, \<open>None\<close> when urlparse raises ValueError;
  \<^item> \<open>remove_html_tags\<close> and \<open>get_content\<close> are the functions of \<^verbatim>\<open>utils\<close>;
  \<^item> \<open>strip\<close> is Python's \<^verbatim>\<open>str.strip()\<close>, which removes the whitespace of
    Unicode at both ends;
  \<^item> \<open>py_int\<close> is Python's \<^verbatim>\<open>int(str)\<close>, \<open>None\<close> when it raises ValueError.
\<close>

record env =
  parse :: "url \<Rightarrow> parsed"
  sendMessage :: "(chat_id \<times> string) list \<Rightarrow> chat_id \<Rightarrow> string \<Rightarrow> send_result"
  getChat :: "string \<Rightarrow> chat_id option"
  bot_status :: "chat_id \<Rightarrow> string"
  list_chats :: "chat_id set \<Rightarrow> chat_id list"
  list_feeds :: "url set \<Rightarrow> url list"
  netloc :: "string \<Rightarrow> string option"
  remove_html_tags :: "string \<Rightarrow> string"
  get_content :: "string \<Rightarrow> string"
  strip :: "string \<Rightarrow> string"
  py_int :: "string \<Rightarrow> int option"

text \<open>
  A command as the handlers see it: the chat the message came from, the
  arguments after the command word, and the verdict of
  \<^verbatim>\<open>utils.can_use_bot(update)\<close>.
\<close>

record update =
  u_chat :: chat_id
  u_args :: "string list"
  u_can_use_bot :: bool

datatype reply =
  No_feed_url_given
  | Not_an_url
  | Channel_does_not_exist
  | Not_administrator
  | Not_a_valid_feed
  | Already_subscribed
  | Added string
  | No_number_given
  | Number_must_be_bigger_than_0
  | Feed_id_too_high
  | Removed url

text \<open>How a handler ends: silently, with a reply, or with an exception.\<close>

datatype outcome = Silent | Reply reply | Raised exn

section \<open>String helpers\<close>

definition after_prefix :: "string \<Rightarrow> string \<Rightarrow> string option" where
  "after_prefix p u = (if take (length p) u = p then Some (drop (length p) u) else None)"

text \<open>The regular expression prefix \<^verbatim>\<open>^https?://\<close>.\<close>

definition after_http :: "string \<Rightarrow> string option" where
  "after_http u =
     (case after_prefix ''https://'' u of
        Some r \<Rightarrow> Some r
      | None \<Rightarrow> after_prefix ''http://'' u)"

text \<open>
  One character of the class the URL pattern of \<^verbatim>\<open>subscribe\<close> repeats:
  \<^verbatim>\<open>[a-zA-Z]|[0-9]|[$-_@.&~+]|[!*(),]\<close>, where \<^verbatim>\<open>$-_\<close> is the range from
  \<^verbatim>\<open>$\<close> (36) to \<^verbatim>\<open>_\<close> (95). The pattern's last alternative, a percent sign
  and two hexadecimal digits, adds nothing: each of its characters is in the
  class already.
\<close>

definition url_char :: "char \<Rightarrow> bool" where
  "url_char c =
     (let n = (of_char c :: nat) in
        (97 \<le> n \<and> n \<le> 122) \<or> (65 \<le> n \<and> n \<le> 90) \<or> (48 \<le> n \<and> n \<le> 57)
        \<or> (36 \<le> n \<and> n \<le> 95) \<or> c \<in> set ''@.&~+'' \<or> c \<in> set ''!*(),'')"

text \<open>
  \<^verbatim>\<open>re.match("^http[s]?://(?:...)+$", feed_url)\<close>: the final \<^verbatim>\<open>$\<close> also matches
  before a newline that ends the string.
\<close>

definition looks_like_url :: "string \<Rightarrow> bool" where
  "looks_like_url u =
     (case after_http u of
        None \<Rightarrow> False
      | Some r \<Rightarrow>
          (let body = (if r \<noteq> [] \<and> last r = CHR 0x0A then butlast r else r)
           in body \<noteq> [] \<and> list_all url_char body))"

text \<open>\<^verbatim>\<open>html.escape(s)\<close> with its default \<^verbatim>\<open>quote=True\<close>.\<close>

definition escape_char :: "char \<Rightarrow> string" where
  "escape_char c =
     (if c = CHR ''&'' then ''&amp;''
      else if c = CHR ''<'' then ''&lt;''
      else if c = CHR ''>'' then ''&gt;''
      else if c = CHR 0x22 then ''&quot;''
      else if c = CHR 0x27 then ''&#x27;''
      else [c])"

definition html_escape :: "string \<Rightarrow> string" where
  "html_escape s = concat (map escape_char s)"

text \<open>\<^verbatim>\<open>.replace("<", "&lt;").replace(">", "&gt;")\<close>.\<close>

definition escape_angle :: "string \<Rightarrow> string" where
  "escape_angle s =
     concat (map (\<lambda>c. if c = CHR ''<'' then ''&lt;'' else if c = CHR ''>'' then ''&gt;'' else [c]) s)"

text \<open>
  The group of \<^verbatim>\<open>(.+?)/\<close>: the shortest non-empty run of characters other than
  newline that a slash follows.
\<close>

fun lazy_group :: "string \<Rightarrow> string option" where
  "lazy_group [] = None"
| "lazy_group (c # cs) =
     (if c = CHR 0x0A then None
      else
        (let g = takeWhile (\<lambda>x. x \<noteq> CHR ''/'' \<and> x \<noteq> CHR 0x0A) cs in
           (case drop (length g) cs of
              [] \<Rightarrow> None
            | x # _ \<Rightarrow> if x = CHR ''/'' then Some (c # g) else None)))"

text \<open>
  \<^verbatim>\<open>re.search("^https?://feedproxy\.google\.com/~r/(.+?)/.*", post_link)\<close>:
  \<open>Some\<close> of group 1 when the pattern matches.
\<close>

definition feedproxy :: "string \<Rightarrow> string option" where
  "feedproxy l =
     (case after_http l of
        None \<Rightarrow> None
      | Some r \<Rightarrow>
          (case after_prefix ''feedproxy.google.com/~r/'' r of
             None \<Rightarrow> None
           | Some r' \<Rightarrow> lazy_group r'))"

definition is_digit :: "char \<Rightarrow> bool" where
  "is_digit c = (let n = (of_char c :: nat) in 48 \<le> n \<and> n \<le> 57)"

text \<open>
  \<^verbatim>\<open>re.sub("^www\d?\.", "", link_name)\<close>: the pattern is anchored at the start of
  the string, so at most one occurrence is removed. \<^verbatim>\<open>\d\<close> is taken on the
  digits of ASCII.
\<close>

definition remove_www :: "string \<Rightarrow> string" where
  "remove_www n =
     (case after_prefix ''www'' n of
        None \<Rightarrow> n
      | Some r \<Rightarrow>
          (case r of
             [] \<Rightarrow> n
           | c # r' \<Rightarrow>
               if is_digit c then (case r' of d # r'' \<Rightarrow> if d = CHR ''.'' then r'' else n | [] \<Rightarrow> n)
               else if c = CHR ''.'' then r'
               else n))"

section \<open>Redis commands on the three kinds of key\<close>

text \<open>\<^verbatim>\<open>r.srem(key, member)\<close> and \<^verbatim>\<open>r.sadd(key, member)\<close> on \<^verbatim>\<open>{url}:subs\<close>.\<close>

definition srem_subs :: "url \<Rightarrow> chat_id \<Rightarrow> state \<Rightarrow> state" where
  "srem_subs f c s = s\<lparr>feed_subs := (feed_subs s)(f := feed_subs s f - {c})\<rparr>"

definition sadd_subs :: "url \<Rightarrow> chat_id \<Rightarrow> state \<Rightarrow> state" where
  "sadd_subs f c s = s\<lparr>feed_subs := (feed_subs s)(f := insert c (feed_subs s f))\<rparr>"

text \<open>The same on \<^verbatim>\<open>{chat}\<close>.\<close>

definition srem_feeds :: "chat_id \<Rightarrow> url \<Rightarrow> state \<Rightarrow> state" where
  "srem_feeds c f s = s\<lparr>chat_feeds := (chat_feeds s)(c := chat_feeds s c - {f})\<rparr>"

definition sadd_feeds :: "chat_id \<Rightarrow> url \<Rightarrow> state \<Rightarrow> state" where
  "sadd_feeds c f s = s\<lparr>chat_feeds := (chat_feeds s)(c := insert f (chat_feeds s c))\<rparr>"

text \<open>\<^verbatim>\<open>r.delete(feed_hash.format(member))\<close>.\<close>

definition delete_chat :: "chat_id \<Rightarrow> state \<Rightarrow> state" where
  "delete_chat c s = s\<lparr>chat_feeds := (chat_feeds s)(c := {})\<rparr>"

text \<open>
  \<^verbatim>\<open>r.rename(feed_hash.format(member), feed_hash.format(new_chat_id))\<close>: Redis
  answers with an error, which redis-py raises as ResponseError, when the
  source key does not exist; it overwrites the destination; renaming a key to
  itself changes nothing.
\<close>

definition rename_chat :: "chat_id \<Rightarrow> chat_id \<Rightarrow> state \<Rightarrow> state option" where
  "rename_chat old new s =
     (if chat_feeds s old = {} then None
      else Some (s\<lparr>chat_feeds := (chat_feeds s)(old := {}, new := chat_feeds s old)\<rparr>))"

text \<open>\<^verbatim>\<open>r.set\<close> and \<^verbatim>\<open>r.delete\<close> on \<^verbatim>\<open>{url}:last_entry\<close>.\<close>

definition set_last_entry :: "url \<Rightarrow> string \<Rightarrow> state \<Rightarrow> state" where
  "set_last_entry f v s = s\<lparr>last_entry := (last_entry s)(f := Some v)\<rparr>"

definition delete_last_entry :: "url \<Rightarrow> state \<Rightarrow> state" where
  "delete_last_entry f s = s\<lparr>last_entry := (last_entry s)(f := None)\<rparr>"

definition write_log :: "log_line \<Rightarrow> state \<Rightarrow> state" where
  "write_log l s = s\<lparr>logged := logged s @ [l]\<rparr>"

section \<open>The command handlers\<close>

text \<open>
  The chat a command acts on (\<^verbatim>\<open># Get Chat ID from name if given\<close>): the
  second argument names it when there is one, otherwise it is the chat of the
  message.
\<close>

definition target_chat :: "env \<Rightarrow> update \<Rightarrow> chat_id option" where
  "target_chat E u =
     (case tl (u_args u) of
        [] \<Rightarrow> Some (u_chat u)
      | name # _ \<Rightarrow> getChat E name)"

text \<open>
  The identifier \<^verbatim>\<open>subscribe\<close> stores for an entry: \<^verbatim>\<open>entry["id"]\<close>, or
  \<^verbatim>\<open>entry["link"]\<close> when the entry has no id; a missing link is a KeyError.
\<close>

definition entry_key :: "entry \<Rightarrow> string option" where
  "entry_key e = (case e_id e of Some i \<Rightarrow> Some i | None \<Rightarrow> e_link e)"

definition subscribe :: "env \<Rightarrow> update \<Rightarrow> state \<Rightarrow> outcome \<times> state" where
  "subscribe E u s =
     (if \<not> u_can_use_bot u then (Silent, s)
      else
        (case u_args u of
           [] \<Rightarrow> (Reply No_feed_url_given, s)
         | arg # rest \<Rightarrow>
             if \<not> looks_like_url arg then (Reply Not_an_url, s)
             else
               (case target_chat E u of
                  None \<Rightarrow> (Reply Channel_does_not_exist, s)
                | Some chat \<Rightarrow>
                    if rest \<noteq> [] \<and> bot_status E chat \<noteq> ''administrator''
                    then (Reply Not_administrator, s)
                    else
                      (let data = parse E arg in
                         (case d_feed_link data of
                            None \<Rightarrow> (Reply Not_a_valid_feed, s)
                          | Some _ \<Rightarrow>
                              (let feed_url = d_href data in
                                 if feed_url \<in> chat_feeds s chat then (Reply Already_subscribed, s)
                                 else
                                   (let feed_title =
                                          (case d_feed_title data of
                                             None \<Rightarrow> feed_url
                                           | Some t \<Rightarrow> html_escape t);
                                        seeded =
                                          (case d_entries data of
                                             [] \<Rightarrow> Some s
                                           | e0 # _ \<Rightarrow>
                                               if last_entry s feed_url \<noteq> None then Some s
                                               else
                                                 (case entry_key e0 of
                                                    None \<Rightarrow> None
                                                  | Some k \<Rightarrow> Some (set_last_entry feed_url k s)))
                                    in
                                      (case seeded of
                                         None \<Rightarrow> (Raised KeyError, s)
                                       | Some s1 \<Rightarrow>
                                           (Reply (Added feed_title),
                                            sadd_feeds chat feed_url (sadd_subs feed_url chat s1))))))))))"

definition unsubscribe :: "env \<Rightarrow> update \<Rightarrow> state \<Rightarrow> outcome \<times> state" where
  "unsubscribe E u s =
     (if \<not> u_can_use_bot u then (Silent, s)
      else
        (case u_args u of
           [] \<Rightarrow> (Reply No_number_given, s)
         | arg # rest \<Rightarrow>
             (case target_chat E u of
                None \<Rightarrow> (Reply Channel_does_not_exist, s)
              | Some chat \<Rightarrow>
                  (case py_int E arg of
                     None \<Rightarrow> (Reply No_number_given, s)
                   | Some n \<Rightarrow>
                       (let subs = chat_feeds s chat in
                          if n < 1 then (Reply Number_must_be_bigger_than_0, s)
                          else if n > int (card subs) then (Reply Feed_id_too_high, s)
                          else
                            (let l = list_feeds E subs in
                               if nat (n - 1) < length l then
                                 (let feed_url = l ! nat (n - 1);
                                      s1 = srem_subs feed_url chat (srem_feeds chat feed_url s);
                                      s2 = (if feed_subs s1 feed_url = {}
                                            then delete_last_entry feed_url s1 else s1)
                                  in (Reply (Removed feed_url), s2))
                               else (Raised IndexError, s)))))))"

section \<open>The new entries of a feed\<close>

text \<open>
  Modelled from the spec: the matching rule of \<^verbatim>\<open>utils.get_new_entries\<close>, a
  function of a module that \<^verbatim>\<open>bot.py\<close> imports and that is not among the
  sources. The spec (Entry Differ): an entry matches the marker if its id
  equals the marker, or, when the entry has no id, its link equals the marker.
\<close>

definition entry_matches :: "entry \<Rightarrow> string \<Rightarrow> bool" where
  "entry_matches e m = (case e_id e of Some i \<Rightarrow> i = m | None \<Rightarrow> e_link e = Some m)"

text \<open>
  Modelled from the spec: the scan of \<^verbatim>\<open>utils.get_new_entries\<close>. The spec:
  scan the entries from newest to oldest and collect all entries preceding
  the match. \<open>None\<close> when no entry matches.
\<close>

fun entries_before :: "entry list \<Rightarrow> string \<Rightarrow> entry list option" where
  "entries_before [] m = None"
| "entries_before (e # es) m =
     (if entry_matches e m then Some []
      else (case entries_before es m of None \<Rightarrow> None | Some pre \<Rightarrow> Some (e # pre)))"

text \<open>
  Modelled from the spec: \<^verbatim>\<open>utils.get_new_entries(entries, last_entry)\<close>, where
  \<^verbatim>\<open>last_entry\<close> is what \<^verbatim>\<open>r.get\<close> returned. The spec: the entries preceding
  the match are the new ones; if no match is found, because the marker is
  absent or is not in the list, zero new entries are reported.
\<close>

definition get_new_entries :: "entry list \<Rightarrow> string option \<Rightarrow> entry list" where
  "get_new_entries es marker =
     (case marker of
        None \<Rightarrow> []
      | Some m \<Rightarrow> (case entries_before es m of None \<Rightarrow> [] | Some pre \<Rightarrow> pre))"

section \<open>The poll cycle of one feed\<close>

text \<open>
  Lines 289 to 299 of \<^verbatim>\<open>check_feed\<close>: the target of the trailing link and the
  name shown for it.
\<close>

definition link_name :: "env \<Rightarrow> parsed \<Rightarrow> entry \<Rightarrow> exn + string \<times> string" where
  "link_name E data e =
     (case
        (case e_link e of
           None \<Rightarrow>
             (case d_link data of
                None \<Rightarrow> Inl AttributeError
              | Some l \<Rightarrow> Inr (l, l))
         | Some l \<Rightarrow>
             (case feedproxy l of
                Some g \<Rightarrow> Inr (l, g)
              | None \<Rightarrow>
                  (case netloc E l of
                     None \<Rightarrow> Inl ValueError
                   | Some h \<Rightarrow> Inr (l, h))))
      of
        Inl x \<Rightarrow> Inl x
      | Inr (post_link, name) \<Rightarrow> Inr (post_link, remove_www name))"

text \<open>
  Lines 284 to 315: the text sent for one entry. The messages are the English
  ones (\<^verbatim>\<open>_\<close> is the identity).
\<close>

definition render :: "env \<Rightarrow> parsed \<Rightarrow> string \<Rightarrow> entry \<Rightarrow> exn + string" where
  "render E data feed_title e =
     (let post_title =
            (case e_title e of
               None \<Rightarrow> ''No title''
             | Some t \<Rightarrow> escape_angle (strip E (remove_html_tags E t)))
      in
        (case link_name E data e of
           Inl x \<Rightarrow> Inl x
         | Inr (post_link, name) \<Rightarrow>
             (let content =
                    (case e_content e of
                       Some c \<Rightarrow> get_content E c
                     | None \<Rightarrow>
                         (case e_summary e of
                            Some m \<Rightarrow> get_content E m
                          | None \<Rightarrow> []));
                  text = ''<b>'' @ post_title @ ''</b>'' @ [CHR 0x0A] @ ''<i>'' @ feed_title
                         @ ''</i>'' @ [CHR 0x0A] @ content;
                  readmore = ''Read more on '' @ name
              in Inr (text @ [CHR 0x0A] @ ''<a href='' @ [CHR 0x22] @ post_link @ [CHR 0x22]
                      @ ''>'' @ readmore @ ''</a>'' @ [CHR 0x0A]))))"

text \<open>
  The body of the loop over the members (lines 317 to 343): one call of
  \<^verbatim>\<open>bot.sendMessage\<close> and its handlers. The second call, inside the handler
  of ChatMigrated, has no handler of its own: whatever it raises leaves
  \<^verbatim>\<open>check_feed\<close>. The result is the exception that leaves, if any, and the
  state reached.
\<close>

definition deliver :: "env \<Rightarrow> url \<Rightarrow> string \<Rightarrow> chat_id \<Rightarrow> state \<Rightarrow> exn option \<times> state" where
  "deliver E feed_url text member s =
     (let r = sendMessage E (sent s) member text;
          s1 = s\<lparr>sent := sent s @ [(member, text)]\<rparr>
      in
        (case r of
           Sent \<Rightarrow> (None, s1)
         | Unauthorized \<Rightarrow>
             (None, delete_chat member (srem_subs feed_url member (write_log (Warn_chat_gone member) s1)))
         | ChatMigrated new_chat_id \<Rightarrow>
             (let s2 = sadd_subs feed_url new_chat_id (srem_subs feed_url member s1) in
                (case rename_chat member new_chat_id s2 of
                   None \<Rightarrow> (Some ResponseError, s2)
                 | Some s3 \<Rightarrow>
                     (let r' = sendMessage E (sent s3) member text;
                          s4 = s3\<lparr>sent := sent s3 @ [(member, text)]\<rparr>
                      in if r' = Sent then (None, s4) else (Some (TelegramError r'), s4))))
         | TimedOut \<Rightarrow> (None, s1)
         | BadRequest m \<Rightarrow> (None, write_log (Error_bad_request m) s1)
         | OtherError \<Rightarrow> (Some (TelegramError OtherError), s1)))"

text \<open>\<^verbatim>\<open>for member in r.smembers(key)\<close>, over the members in the order of iteration.\<close>

fun for_members :: "env \<Rightarrow> url \<Rightarrow> string \<Rightarrow> chat_id list \<Rightarrow> state \<Rightarrow> exn option \<times> state" where
  "for_members E feed_url text [] s = (None, s)"
| "for_members E feed_url text (member # ms) s =
     (case deliver E feed_url text member s of
        (None, s') \<Rightarrow> for_members E feed_url text ms s'
      | (Some x, s') \<Rightarrow> (Some x, s'))"

text \<open>
  \<^verbatim>\<open>for entry in reversed(new_entries)\<close>: the members are read from the store
  anew for every entry.
\<close>

fun for_entries :: "env \<Rightarrow> url \<Rightarrow> parsed \<Rightarrow> string \<Rightarrow> entry list \<Rightarrow> state \<Rightarrow> exn option \<times> state" where
  "for_entries E feed_url data feed_title [] s = (None, s)"
| "for_entries E feed_url data feed_title (e # es) s =
     (case render E data feed_title e of
        Inl x \<Rightarrow> (Some x, s)
      | Inr text \<Rightarrow>
          (case for_members E feed_url text (list_chats E (feed_subs s feed_url)) s of
             (None, s') \<Rightarrow> for_entries E feed_url data feed_title es s'
           | (Some x, s') \<Rightarrow> (Some x, s')))"

text \<open>
  Line 267: \<^verbatim>\<open>re.match("^pythonbot:rss:(.+):subs$", key).group(1)\<close> for the key
  \<^verbatim>\<open>pythonbot:rss:{u}:subs\<close>. The key ends with \<^verbatim>\<open>:subs\<close>, so the group has to
  span \<open>u\<close>: one or more characters, none of them a newline. Otherwise
  \<^verbatim>\<open>re.match\<close> returns \<^verbatim>\<open>None\<close> and \<^verbatim>\<open>.group\<close> raises AttributeError.
\<close>

definition key_feed_url :: "url \<Rightarrow> url option" where
  "key_feed_url u = (if u \<noteq> [] \<and> CHR 0x0A \<notin> set u then Some u else None)"

text \<open>
  \<^verbatim>\<open>check_feed(bot, key)\<close> for the key \<^verbatim>\<open>pythonbot:rss:{u}:subs\<close>. The first
  component of the result is the exception that ends the call, \<open>None\<close> when
  it returns.
\<close>

definition check_feed :: "env \<Rightarrow> url \<Rightarrow> state \<Rightarrow> exn option \<times> state" where
  "check_feed E u s =
     (case key_feed_url u of
        None \<Rightarrow> (Some AttributeError, s)
      | Some feed_url \<Rightarrow>
          (let data = parse E feed_url in
             (case d_feed_link data of
                None \<Rightarrow>
                  (let not_valid =
                         (case d_bozo_exception data of
                            None \<Rightarrow> (Some AttributeError, s)
                          | Some b \<Rightarrow> (None, write_log (Warn_not_valid feed_url b) s))
                   in
                     (case d_status data of
                        None \<Rightarrow> not_valid
                      | Some c \<Rightarrow>
                          if c \<noteq> 200 then (None, write_log (Warn_http_code feed_url c) s)
                          else not_valid))
              | Some fl \<Rightarrow>
                  (let feed_title = (case d_feed_title data of None \<Rightarrow> fl | Some t \<Rightarrow> t);
                       new_entries = get_new_entries (d_entries data) (last_entry s feed_url)
                   in
                     (case for_entries E feed_url data feed_title (rev new_entries) s of
                        (Some x, s') \<Rightarrow> (Some x, s')
                      | (None, s') \<Rightarrow>
                          if feed_subs s' feed_url = {} then (None, delete_last_entry feed_url s')
                          else
                            (case new_entries of
                               [] \<Rightarrow> (None, s')
                             | e0 # _ \<Rightarrow>
                                 (case e_id e0 of
                                    Some i \<Rightarrow> (None, set_last_entry feed_url i s')
                                  | None \<Rightarrow>
                                      (case e_link e0 of
                                         None \<Rightarrow> (Some AttributeError, s')
                                       | Some l \<Rightarrow> (None, set_last_entry feed_url l s')))))))))"

section \<open>Concrete inputs\<close>

text \<open>
  Collaborators and a store to run the handlers on. The feed has three
  entries, newest first; chat 7 is its only subscriber and has seen the oldest
  entry. \<open>decimal\<close> reads an optional minus sign and decimal digits,
  \<open>host_of\<close> takes the characters between \<^verbatim>\<open>http://\<close> or \<^verbatim>\<open>https://\<close> and
  the next slash, question mark or hash, and \<open>strip_ascii\<close> removes the
  whitespace of ASCII at both ends.
\<close>

definition py_space :: "char \<Rightarrow> bool" where
  "py_space c = (let n = (of_char c :: nat) in (9 \<le> n \<and> n \<le> 13) \<or> (28 \<le> n \<and> n \<le> 32))"

definition strip_ascii :: "string \<Rightarrow> string" where
  "strip_ascii s = rev (dropWhile py_space (rev (dropWhile py_space s)))"

definition decimal :: "string \<Rightarrow> int option" where
  "decimal a =
     (let digits = (\<lambda>ds. if ds \<noteq> [] \<and> list_all is_digit ds
                         then Some (foldl (\<lambda>n c. 10 * n + (int (of_char c) - 48)) 0 ds)
                         else None)
      in (case a of
            [] \<Rightarrow> None
          | c # cs \<Rightarrow> if c = CHR ''-'' then map_option uminus (digits cs) else digits a))"

definition host_of :: "string \<Rightarrow> string option" where
  "host_of l =
     (case after_http l of
        None \<Rightarrow> Some []
      | Some r \<Rightarrow> Some (takeWhile (\<lambda>c. c \<notin> set ''/?#'') r))"

definition demo_entry :: "string \<Rightarrow> string \<Rightarrow> entry" where
  "demo_entry i l =
     \<lparr>e_id = Some i, e_link = Some l, e_title = Some i, e_content = None, e_summary = None\<rparr>"

definition demo_feed :: parsed where
  "demo_feed =
     \<lparr>d_feed_link = Some ''http://example.org/'',
      d_feed_title = Some ''Example'',
      d_href = ''http://example.org/feed'',
      d_link = None,
      d_status = Some 200,
      d_bozo_exception = None,
      d_entries =
        [demo_entry ''c'' ''http://www.example.org/c'',
         demo_entry ''b'' ''http://www.example.org/b'',
         demo_entry ''a'' ''http://www.example.org/a'']\<rparr>"

definition demo_env :: env where
  "demo_env =
     \<lparr>parse = (\<lambda>_. demo_feed),
      sendMessage = (\<lambda>_ _ _. Sent),
      getChat = (\<lambda>_. None),
      bot_status = (\<lambda>_. ''administrator''),
      list_chats = sorted_list_of_set,
      list_feeds = (\<lambda>S. if S = {''http://example.org/feed''} then [''http://example.org/feed''] else []),
      netloc = host_of,
      remove_html_tags = (\<lambda>t. t),
      get_content = (\<lambda>t. t),
      strip = strip_ascii,
      py_int = decimal\<rparr>"

definition demo_state :: state where
  "demo_state =
     \<lparr>chat_feeds = (\<lambda>_. {})(7 := {''http://example.org/feed''}),
      feed_subs = (\<lambda>_. {})(''http://example.org/feed'' := {7}),
      last_entry = (\<lambda>_. None)(''http://example.org/feed'' := Some ''a''),
      sent = [],
      logged = []\<rparr>"

definition demo_update :: "string list \<Rightarrow> update" where
  "demo_update args = \<lparr>u_chat = 7, u_args = args, u_can_use_bot = True\<rparr>"

definition fresh_state :: state where
  "fresh_state =
     \<lparr>chat_feeds = (\<lambda>_. {}), feed_subs = (\<lambda>_. {}), last_entry = (\<lambda>_. None),
      sent = [], logged = []\<rparr>"

section \<open>Predicates of the statements\<close>

text \<open>
  The relation between markers and subscriber sets that the data model asks
  for: a feed has a marker iff it has a subscriber.
\<close>

definition marker_inv :: "state \<Rightarrow> bool" where
  "marker_inv s = (\<forall>f. (last_entry s f \<noteq> None) = (feed_subs s f \<noteq> {}))"

text \<open>
  Chat \<open>C\<close> is gone as far as feed \<open>F\<close> and its own key are concerned, and:
  among the attempts \<open>new\<close> made after the attempts \<open>old\<close>, one went to \<open>C\<close> and
  the transport answered Unauthorized.
\<close>

definition purged :: "chat_id \<Rightarrow> url \<Rightarrow> state \<Rightarrow> bool" where
  "purged C F s = (C \<notin> feed_subs s F \<and> chat_feeds s C = {})"

definition refused :: "env \<Rightarrow> chat_id \<Rightarrow> (chat_id \<times> string) list \<Rightarrow> (chat_id \<times> string) list \<Rightarrow> bool" where
  "refused E C old new = (\<exists>a t b. new = a @ (C, t) # b \<and> sendMessage E (old @ a) C t = Unauthorized)"

text \<open>
  The text that \<^verbatim>\<open>check_feed\<close> sends for entry \<open>e\<close> of feed \<open>F\<close>: what
  \<open>render\<close> returns for it under the title of the feed (the feed's title, or
  its link when it has no title); empty where \<open>render\<close> raises.
\<close>

definition rendered :: "env \<Rightarrow> url \<Rightarrow> entry \<Rightarrow> string" where
  "rendered E F e =
     (case render E (parse E F)
             (case d_feed_title (parse E F) of
                None \<Rightarrow> (case d_feed_link (parse E F) of None \<Rightarrow> [] | Some fl \<Rightarrow> fl)
              | Some t \<Rightarrow> t) e of
        Inl _ \<Rightarrow> []
      | Inr t \<Rightarrow> t)"

section \<open>More concrete inputs\<close>

text \<open>
  A transport that reports a migration to chat 8 on the first attempt, one
  that refuses every attempt, a feed without entries, a feed whose newest
  entry has no link, stores in which chat 7 has seen entry \<open>b\<close> (alone, or
  together with a subscription to a second feed), and the text that the first
  feed's entries are rendered to.
\<close>

definition migrating_env :: env where
  "migrating_env = demo_env\<lparr>sendMessage := (\<lambda>h c t. if h = [] then ChatMigrated 8 else Sent)\<rparr>"

definition refusing_env :: env where
  "refusing_env = demo_env\<lparr>sendMessage := (\<lambda>h c t. Unauthorized)\<rparr>"

definition empty_feed_env :: env where
  "empty_feed_env = demo_env\<lparr>parse := (\<lambda>_. demo_feed\<lparr>d_entries := []\<rparr>)\<rparr>"

definition seen_b_state :: state where
  "seen_b_state = demo_state\<lparr>last_entry := (\<lambda>_. None)(''http://example.org/feed'' := Some ''b'')\<rparr>"

definition two_feeds_state :: state where
  "two_feeds_state =
     \<lparr>chat_feeds = (\<lambda>_. {})(7 := {''http://example.org/feed'', ''http://example.net/feed''}),
      feed_subs = (\<lambda>_. {})(''http://example.org/feed'' := {7}, ''http://example.net/feed'' := {7}),
      last_entry = (\<lambda>_. None)(''http://example.org/feed'' := Some ''b'', ''http://example.net/feed'' := Some ''z''),
      sent = [],
      logged = []\<rparr>"

definition demo_text :: "entry \<Rightarrow> string" where
  "demo_text e = (case render demo_env demo_feed ''Example'' e of Inl _ \<Rightarrow> [] | Inr t \<Rightarrow> t)"

definition linkless_env :: env where
  "linkless_env =
     refusing_env\<lparr>parse := (\<lambda>_. demo_feed\<lparr>d_entries :=
       \<lparr>e_id = Some ''d'', e_link = None, e_title = None, e_content = None, e_summary = None\<rparr>
       # d_entries demo_feed\<rparr>)\<rparr>"

text \<open>
  A feed with a fourth, newest entry that has a link and no id; a feed whose
  only entry has neither id nor link; a feed that arrives with HTTP status
  500; and two results without a feed link, one with status 404 and one with
  a parser exception.
\<close>

definition long_feed :: parsed where
  "long_feed =
     demo_feed\<lparr>d_entries :=
       \<lparr>e_id = None, e_link = Some ''http://www.example.org/d'', e_title = Some ''d'',
        e_content = None, e_summary = None\<rparr>
       # d_entries demo_feed\<rparr>"

definition long_env :: env where
  "long_env = demo_env\<lparr>parse := (\<lambda>_. long_feed)\<rparr>"

definition nameless_env :: env where
  "nameless_env =
     demo_env\<lparr>parse := (\<lambda>_. demo_feed\<lparr>d_entries :=
       [\<lparr>e_id = None, e_link = None, e_title = Some ''x'', e_content = None, e_summary = None\<rparr>]\<rparr>)\<rparr>"

definition status_500_env :: env where
  "status_500_env = demo_env\<lparr>parse := (\<lambda>_. demo_feed\<lparr>d_status := Some 500\<rparr>)\<rparr>"

definition not_found_env :: env where
  "not_found_env = demo_env\<lparr>parse := (\<lambda>_. demo_feed\<lparr>d_feed_link := None, d_status := Some 404\<rparr>)\<rparr>"

definition malformed_env :: env where
  "malformed_env =
     demo_env\<lparr>parse := (\<lambda>_. demo_feed\<lparr>d_feed_link := None, d_bozo_exception := Some ''not well-formed''\<rparr>)\<rparr>"

section \<open>Unsubscribe: arguments that name no subscription\<close>

lemma unsubscribe_known_chat:
  assumes "u_can_use_bot u" and "u_args u = arg # rest" and "target_chat E u = Some chat"
  shows "unsubscribe E u s =
     (case py_int E arg of
        None \<Rightarrow> (Reply No_number_given, s)
      | Some n \<Rightarrow>
          (let subs = chat_feeds s chat in
             if n < 1 then (Reply Number_must_be_bigger_than_0, s)
             else if n > int (card subs) then (Reply Feed_id_too_high, s)
             else
               (let l = list_feeds E subs in
                  if nat (n - 1) < length l then
                    (let feed_url = l ! nat (n - 1);
                         s1 = srem_subs feed_url chat (srem_feeds chat feed_url s);
                         s2 = (if feed_subs s1 feed_url = {}
                               then delete_last_entry feed_url s1 else s1)
                     in (Reply (Removed feed_url), s2))
                  else (Raised IndexError, s))))"
  using assms by (simp add: unsubscribe_def)

lemma demo_target_chat: "target_chat demo_env (demo_update [a]) = Some 7"
  by (simp add: target_chat_def demo_update_def)

text \<open>
  C7. A user who may use the bot sends \<^verbatim>\<open>/del n\<close> for a chat that resolves,
  where \<open>n\<close> is an integer below 1 or above the number \<open>N\<close> of feeds the chat is
  subscribed to. The handler answers with one of its two out-of-range errors
  ("Number must be bigger than 0!" below 1, "Feed ID too high." above \<open>N\<close>)
  and the whole state, so every chat's feed set, every feed's subscriber set
  and every marker, is what it was.
\<close>

theorem unsubscribe_out_of_range:
  assumes "u_can_use_bot u"
    and "u_args u = arg # rest"
    and "target_chat E u = Some chat"
    and "py_int E arg = Some n"
    and "n < 1 \<or> int (card (chat_feeds s chat)) < n"
  shows "unsubscribe E u s =
     (Reply (if n < 1 then Number_must_be_bigger_than_0 else Feed_id_too_high), s)"
  using assms(4,5) unsubscribe_known_chat [OF assms(1,2,3), of s]
  by (auto simp: Let_def)

theorem unsubscribe_out_of_range_witness:
  "card (chat_feeds demo_state 7) = 1
   \<and> unsubscribe demo_env (demo_update [''0'']) demo_state
       = (Reply Number_must_be_bigger_than_0, demo_state)
   \<and> unsubscribe demo_env (demo_update [''2'']) demo_state
       = (Reply Feed_id_too_high, demo_state)"
proof -
  have c: "card (chat_feeds demo_state 7) = 1"
    by (simp add: demo_state_def)
  have u: "u_can_use_bot (demo_update [a])" "u_args (demo_update [a]) = a # []" for a
    by (simp_all add: demo_update_def)
  have p0: "py_int demo_env ''0'' = Some 0" and p2: "py_int demo_env ''2'' = Some 2"
    by (simp_all add: demo_env_def decimal_def is_digit_def)
  have "unsubscribe demo_env (demo_update [''0'']) demo_state
          = (Reply Number_must_be_bigger_than_0, demo_state)"
    using unsubscribe_out_of_range [OF u demo_target_chat p0, of demo_state] by simp
  moreover have "unsubscribe demo_env (demo_update [''2'']) demo_state
          = (Reply Feed_id_too_high, demo_state)"
    using unsubscribe_out_of_range [OF u demo_target_chat p2, of demo_state] c by simp
  ultimately show ?thesis using c by simp
qed

text \<open>
  C10. A user who may use the bot sends \<^verbatim>\<open>/del\<close> with a first argument that
  \<^verbatim>\<open>int\<close> rejects, for a chat that resolves. The handler answers
  "No number given." and the whole state is what it was.
\<close>

theorem unsubscribe_not_a_number:
  assumes "u_can_use_bot u"
    and "u_args u = arg # rest"
    and "target_chat E u = Some chat"
    and "py_int E arg = None"
  shows "unsubscribe E u s = (Reply No_number_given, s)"
  using assms(4) unsubscribe_known_chat [OF assms(1,2,3), of s] by simp

theorem unsubscribe_not_a_number_witness:
  "py_int demo_env ''one'' = None
   \<and> unsubscribe demo_env (demo_update [''one'']) demo_state = (Reply No_number_given, demo_state)"
proof -
  have u: "u_can_use_bot (demo_update [a])" "u_args (demo_update [a]) = a # []" for a
    by (simp_all add: demo_update_def)
  have p: "py_int demo_env ''one'' = None"
    by (simp add: demo_env_def decimal_def is_digit_def)
  show ?thesis
    using unsubscribe_not_a_number [OF u demo_target_chat p, of demo_state] p by simp
qed

section \<open>Subscribe\<close>

lemma fresh_state_simps:
  "chat_feeds fresh_state c = {}" "feed_subs fresh_state f = {}" "last_entry fresh_state f = None"
  "sent fresh_state = []" "logged fresh_state = []"
  by (simp_all add: fresh_state_def)

lemma demo_url: "looks_like_url ''http://example.org/rss''"
  by (simp add: looks_like_url_def after_http_def after_prefix_def url_char_def)

lemma demo_subscribe:
  "subscribe demo_env (demo_update [''http://example.org/rss'']) fresh_state
     = (Reply (Added ''Example''),
        sadd_feeds 7 ''http://example.org/feed''
          (sadd_subs ''http://example.org/feed'' 7
            (set_last_entry ''http://example.org/feed'' ''c'' fresh_state)))"
  by (simp add: subscribe_def demo_url demo_update_def target_chat_def demo_env_def demo_feed_def
      demo_entry_def entry_key_def html_escape_def escape_char_def Let_def fresh_state_simps)

text \<open>
  C6. A subscription succeeds (the handler answers "added"); then the same
  chat is subscribed again, by any user who may use the bot, with an argument
  that looks like a URL and that feedparser resolves to the same
  \<^verbatim>\<open>data.href\<close> as the first. After the first call the chat is in the feed's
  subscriber set and the feed in the chat's feed set; the second call answers
  "Already subscribed to this feed." and returns the state it was given. The
  two relations are sets, so the subscription is there once.
\<close>

theorem subscribe_twice:
  assumes "subscribe E u s = (Reply (Added t), s1)"
    and "u_args u = arg # rest"
    and "target_chat E u = Some chat"
    and "u_can_use_bot u'"
    and "u_chat u' = u_chat u"
    and "u_args u' = arg' # rest"
    and "looks_like_url arg'"
    and "d_feed_link (parse E arg') \<noteq> None"
    and "d_href (parse E arg') = d_href (parse E arg)"
  shows "d_href (parse E arg) \<in> chat_feeds s1 chat
     \<and> chat \<in> feed_subs s1 (d_href (parse E arg))
     \<and> subscribe E u' s1 = (Reply Already_subscribed, s1)"
proof -
  have t': "target_chat E u' = Some chat"
    using assms(2,3,5,6) by (simp add: target_chat_def split: list.splits)
  from assms(1,2,3) have adm: "\<not> (rest \<noteq> [] \<and> bot_status E chat \<noteq> ''administrator'')"
    by (auto simp: subscribe_def Let_def split: if_splits option.splits list.splits)
  from assms(1,2,3) have s1: "\<exists>s0. s1 = sadd_feeds chat (d_href (parse E arg)) (sadd_subs (d_href (parse E arg)) chat s0)"
    by (auto simp: subscribe_def Let_def split: if_splits option.splits list.splits)
  then have m: "d_href (parse E arg) \<in> chat_feeds s1 chat" "chat \<in> feed_subs s1 (d_href (parse E arg))"
    by (auto simp: sadd_feeds_def sadd_subs_def)
  have "subscribe E u' s1 = (Reply Already_subscribed, s1)"
    using assms(4,6,7,8,9) t' adm m(1)
    by (auto simp: subscribe_def Let_def)
  with m show ?thesis by simp
qed

theorem subscribe_twice_witness:
  "fst (subscribe demo_env (demo_update [''http://example.org/rss'']) fresh_state)
     = Reply (Added ''Example'')
   \<and> subscribe demo_env (demo_update [''http://example.org/rss''])
        (snd (subscribe demo_env (demo_update [''http://example.org/rss'']) fresh_state))
     = (Reply Already_subscribed,
        snd (subscribe demo_env (demo_update [''http://example.org/rss'']) fresh_state))"
proof -
  let ?u = "demo_update [''http://example.org/rss'']"
  have a: "u_args ?u = ''http://example.org/rss'' # []" and b: "u_can_use_bot ?u"
    by (simp_all add: demo_update_def)
  have c: "d_feed_link (parse demo_env ''http://example.org/rss'') \<noteq> None"
    by (simp add: demo_env_def demo_feed_def)
  show ?thesis
    using subscribe_twice [OF demo_subscribe a demo_target_chat b refl a demo_url c refl]
    by (simp add: demo_subscribe)
qed

lemma entries_before_head: "entry_key e0 = Some k \<Longrightarrow> entries_before (e0 # es) k = Some []"
  by (auto simp: entry_key_def entry_matches_def split: option.splits)

section \<open>What one delivery and the two loops change\<close>

lemmas store_defs = srem_subs_def sadd_subs_def srem_feeds_def sadd_feeds_def delete_chat_def
  rename_chat_def set_last_entry_def delete_last_entry_def write_log_def

lemma deliver_last_entry: "last_entry (snd (deliver E F msg m s)) = last_entry s"
  by (simp add: deliver_def Let_def store_defs split: send_result.splits option.splits)

lemma deliver_other_feed: "G \<noteq> F \<Longrightarrow> feed_subs (snd (deliver E F msg m s)) G = feed_subs s G"
  by (simp add: deliver_def Let_def store_defs split: send_result.splits option.splits)

lemma deliver_sent:
  "sent (snd (deliver E F msg m s)) = sent s @ [(m, msg)]
   \<or> sent (snd (deliver E F msg m s)) = sent s @ [(m, msg), (m, msg)]"
  by (simp add: deliver_def Let_def store_defs split: send_result.splits option.splits)

lemma deliver_all_sent:
  "sendMessage E (sent s) m msg = Sent \<Longrightarrow> deliver E F msg m s = (None, s\<lparr>sent := sent s @ [(m, msg)]\<rparr>)"
  by (simp add: deliver_def)

lemma deliver_keeps_purged:
  assumes "\<forall>h c t. sendMessage E h c t \<noteq> ChatMigrated C" and "purged C F s"
  shows "purged C F (snd (deliver E F msg m s))"
proof -
  have "sendMessage E (sent s) m msg \<noteq> ChatMigrated C" using assms(1) by blast
  with assms(2) show ?thesis
    by (auto simp: purged_def deliver_def Let_def store_defs split: send_result.splits option.splits if_splits)
qed

lemma deliver_refused:
  assumes "\<forall>h c t. sendMessage E h c t \<noteq> ChatMigrated C"
    and "sent (snd (deliver E F msg m s)) = sent s @ new"
    and "refused E C (sent s) new"
  shows "purged C F (snd (deliver E F msg m s))"
proof -
  have nm: "sendMessage E (sent s) m msg \<noteq> ChatMigrated C" using assms(1) by blast
  from assms(3) obtain a t b where new: "new = a @ (C, t) # b"
    and un: "sendMessage E (sent s @ a) C t = Unauthorized"
    by (auto simp: refused_def)
  show ?thesis
  proof (cases "sendMessage E (sent s) m msg")
    case (ChatMigrated n)
    with nm have n: "n \<noteq> C" by simp
    from assms(2) new deliver_sent [of E F msg m s] have "m = C"
      by (auto simp: Cons_eq_append_conv append_eq_Cons_conv)
    with ChatMigrated n show ?thesis
      by (auto simp: purged_def deliver_def Let_def store_defs split: option.splits if_splits)
  next
    case Unauthorized
    from assms(2) new deliver_sent [of E F msg m s] have "m = C"
      by (auto simp: Cons_eq_append_conv append_eq_Cons_conv)
    with Unauthorized show ?thesis
      by (auto simp: purged_def deliver_def Let_def store_defs)
  next
    case Sent
    with assms(2) new un show ?thesis
      by (auto simp: deliver_def Let_def Cons_eq_append_conv append_eq_Cons_conv)
  next
    case TimedOut
    with assms(2) new un show ?thesis
      by (auto simp: deliver_def Let_def Cons_eq_append_conv append_eq_Cons_conv)
  next
    case (BadRequest x)
    with assms(2) new un show ?thesis
      by (auto simp: deliver_def Let_def store_defs Cons_eq_append_conv append_eq_Cons_conv)
  next
    case OtherError
    with assms(2) new un show ?thesis
      by (auto simp: deliver_def Let_def Cons_eq_append_conv append_eq_Cons_conv)
  qed
qed

lemma refused_append:
  "refused E C old (n1 @ n2) \<Longrightarrow> refused E C old n1 \<or> refused E C (old @ n1) n2"
proof -
  assume "refused E C old (n1 @ n2)"
  then obtain a t b where eq: "n1 @ n2 = a @ (C, t) # b"
    and un: "sendMessage E (old @ a) C t = Unauthorized"
    by (auto simp: refused_def)
  from eq consider us where "n1 = a @ us" "us @ n2 = (C, t) # b"
    | us where "n1 @ us = a" "n2 = us @ (C, t) # b"
    by (auto simp: append_eq_append_conv2)
  then show ?thesis
  proof cases
    case 1
    show ?thesis
    proof (cases us)
      case Nil
      with 1 un have "n2 = [] @ (C, t) # b" "sendMessage E ((old @ n1) @ []) C t = Unauthorized"
        by simp_all
      then have "refused E C (old @ n1) n2"
        unfolding refused_def by blast
      then show ?thesis ..
    next
      case (Cons x us')
      with 1 un have "n1 = a @ (C, t) # us'" "sendMessage E (old @ a) C t = Unauthorized"
        by simp_all
      then have "refused E C old n1"
        unfolding refused_def by blast
      then show ?thesis ..
    qed
  next
    case 2
    with un have "n2 = us @ (C, t) # b" "sendMessage E ((old @ n1) @ us) C t = Unauthorized"
      by simp_all
    then have "refused E C (old @ n1) n2"
      unfolding refused_def by blast
    then show ?thesis ..
  qed
qed

lemma for_members_Cons_None:
  "fst (deliver E F msg m s) = None \<Longrightarrow>
     for_members E F msg (m # ms) s = for_members E F msg ms (snd (deliver E F msg m s))"
  by (cases "deliver E F msg m s") simp

lemma for_members_Cons_Some:
  "fst (deliver E F msg m s) = Some x \<Longrightarrow> for_members E F msg (m # ms) s = deliver E F msg m s"
  by (cases "deliver E F msg m s") simp

lemma for_entries_Cons_Inl:
  "render E data title e = Inl x \<Longrightarrow> for_entries E F data title (e # es) s = (Some x, s)"
  by simp

lemma for_entries_Cons_None:
  "render E data title e = Inr msg \<Longrightarrow>
   fst (for_members E F msg (list_chats E (feed_subs s F)) s) = None \<Longrightarrow>
     for_entries E F data title (e # es) s
       = for_entries E F data title es (snd (for_members E F msg (list_chats E (feed_subs s F)) s))"
  by (cases "for_members E F msg (list_chats E (feed_subs s F)) s") simp

lemma for_entries_Cons_Some:
  "render E data title e = Inr msg \<Longrightarrow>
   fst (for_members E F msg (list_chats E (feed_subs s F)) s) = Some x \<Longrightarrow>
     for_entries E F data title (e # es) s
       = for_members E F msg (list_chats E (feed_subs s F)) s"
  by (cases "for_members E F msg (list_chats E (feed_subs s F)) s") simp

lemma for_members_last_entry: "last_entry (snd (for_members E F msg ms s)) = last_entry s"
proof (induction ms arbitrary: s)
  case Nil
  show ?case by simp
next
  case (Cons m ms)
  show ?case
    by (cases "fst (deliver E F msg m s)")
      (simp_all only: for_members_Cons_None for_members_Cons_Some Cons.IH deliver_last_entry)
qed

lemma for_members_other_feed:
  "G \<noteq> F \<Longrightarrow> feed_subs (snd (for_members E F msg ms s)) G = feed_subs s G"
proof (induction ms arbitrary: s)
  case Nil
  show ?case by simp
next
  case (Cons m ms)
  show ?case
    by (cases "fst (deliver E F msg m s)")
      (simp_all only: for_members_Cons_None for_members_Cons_Some Cons.IH [OF Cons.prems]
        deliver_other_feed [OF Cons.prems])
qed

lemma for_members_sent: "\<exists>new. sent (snd (for_members E F msg ms s)) = sent s @ new"
proof (induction ms arbitrary: s)
  case Nil
  then show ?case by simp
next
  case (Cons m ms)
  from deliver_sent [of E F msg m s] obtain n1 where n1: "sent (snd (deliver E F msg m s)) = sent s @ n1"
    by blast
  show ?case
  proof (cases "fst (deliver E F msg m s)")
    case None
    from Cons.IH [of "snd (deliver E F msg m s)"] n1 show ?thesis
      by (auto simp only: for_members_Cons_None [OF None] append_assoc)
  next
    case (Some x)
    with n1 show ?thesis by (simp only: for_members_Cons_Some [OF Some]) blast
  qed
qed

lemma for_entries_last_entry: "last_entry (snd (for_entries E F data title es s)) = last_entry s"
proof (induction es arbitrary: s)
  case Nil
  show ?case by simp
next
  case (Cons e es)
  show ?case
  proof (cases "render E data title e")
    case (Inl x)
    then show ?thesis by simp
  next
    case (Inr msg)
    show ?thesis
      by (cases "fst (for_members E F msg (list_chats E (feed_subs s F)) s)")
        (simp_all only: for_entries_Cons_None [OF Inr] for_entries_Cons_Some [OF Inr] Cons.IH
          for_members_last_entry)
  qed
qed

lemma for_entries_other_feed:
  "G \<noteq> F \<Longrightarrow> feed_subs (snd (for_entries E F data title es s)) G = feed_subs s G"
proof (induction es arbitrary: s)
  case Nil
  show ?case by simp
next
  case (Cons e es)
  show ?case
  proof (cases "render E data title e")
    case (Inl x)
    then show ?thesis by simp
  next
    case (Inr msg)
    show ?thesis
      by (cases "fst (for_members E F msg (list_chats E (feed_subs s F)) s)")
        (simp_all only: for_entries_Cons_None [OF Inr] for_entries_Cons_Some [OF Inr]
          Cons.IH [OF Cons.prems] for_members_other_feed [OF Cons.prems])
  qed
qed

lemma for_entries_sent: "\<exists>new. sent (snd (for_entries E F data title es s)) = sent s @ new"
proof (induction es arbitrary: s)
  case Nil
  then show ?case by simp
next
  case (Cons e es)
  show ?case
  proof (cases "render E data title e")
    case (Inl x)
    then show ?thesis by simp
  next
    case (Inr msg)
    let ?r = "for_members E F msg (list_chats E (feed_subs s F)) s"
    from for_members_sent [of E F msg _ s] obtain n1 where n1: "sent (snd ?r) = sent s @ n1"
      by blast
    show ?thesis
    proof (cases "fst ?r")
      case None
      from Cons.IH [of "snd ?r"] n1 show ?thesis
        by (auto simp only: for_entries_Cons_None [OF Inr None] append_assoc)
    next
      case (Some x)
      with n1 show ?thesis by (simp only: for_entries_Cons_Some [OF Inr Some]) blast
    qed
  qed
qed

lemma refused_Nil: "\<not> refused E C old []"
  by (simp add: refused_def)

lemma for_members_keeps_purged:
  assumes "\<forall>h c t. sendMessage E h c t \<noteq> ChatMigrated C"
  shows "purged C F s \<Longrightarrow> purged C F (snd (for_members E F msg ms s))"
proof (induction ms arbitrary: s)
  case Nil
  then show ?case by simp
next
  case (Cons m ms)
  from deliver_keeps_purged [OF assms Cons.prems] have p: "purged C F (snd (deliver E F msg m s))" .
  show ?case
    by (cases "fst (deliver E F msg m s)")
      (simp_all only: for_members_Cons_None for_members_Cons_Some Cons.IH [OF p] p)
qed

lemma for_members_refused:
  assumes nm: "\<forall>h c t. sendMessage E h c t \<noteq> ChatMigrated C"
  shows "sent (snd (for_members E F msg ms s)) = sent s @ new \<Longrightarrow> refused E C (sent s) new
    \<Longrightarrow> purged C F (snd (for_members E F msg ms s))"
proof (induction ms arbitrary: s new)
  case Nil
  then show ?case by (simp add: refused_Nil)
next
  case (Cons m ms)
  let ?d = "deliver E F msg m s"
  from deliver_sent [of E F msg m s] obtain n1 where n1: "sent (snd ?d) = sent s @ n1"
    by blast
  show ?case
  proof (cases "fst ?d")
    case None
    note eq = for_members_Cons_None [OF None, of ms]
    from for_members_sent [of E F msg ms "snd ?d"] obtain n2
      where n2: "sent (snd (for_members E F msg ms (snd ?d))) = sent (snd ?d) @ n2"
      by blast
    with Cons.prems(1) n1 eq have new: "new = n1 @ n2" by simp
    with Cons.prems(2) refused_append [of E C "sent s" n1 n2]
    consider "refused E C (sent s) n1" | "refused E C (sent (snd ?d)) n2"
      using n1 by auto
    then show ?thesis
    proof cases
      case 1
      then have "purged C F (snd ?d)" by (rule deliver_refused [OF nm n1])
      then show ?thesis unfolding eq by (rule for_members_keeps_purged [OF nm])
    next
      case 2
      then show ?thesis unfolding eq by (rule Cons.IH [OF n2])
    qed
  next
    case (Some x)
    note eq = for_members_Cons_Some [OF Some, of ms]
    with Cons.prems n1 have "new = n1" by simp
    with Cons.prems(2) show ?thesis unfolding eq using deliver_refused [OF nm n1] by simp
  qed
qed

lemma for_entries_keeps_purged:
  assumes "\<forall>h c t. sendMessage E h c t \<noteq> ChatMigrated C"
  shows "purged C F s \<Longrightarrow> purged C F (snd (for_entries E F data title es s))"
proof (induction es arbitrary: s)
  case Nil
  then show ?case by simp
next
  case (Cons e es)
  show ?case
  proof (cases "render E data title e")
    case (Inl x)
    with Cons.prems show ?thesis by simp
  next
    case (Inr msg)
    from for_members_keeps_purged [OF assms Cons.prems]
    have p: "purged C F (snd (for_members E F msg (list_chats E (feed_subs s F)) s))" .
    show ?thesis
      by (cases "fst (for_members E F msg (list_chats E (feed_subs s F)) s)")
        (simp_all only: for_entries_Cons_None [OF Inr] for_entries_Cons_Some [OF Inr] Cons.IH [OF p] p)
  qed
qed

lemma for_entries_refused:
  assumes nm: "\<forall>h c t. sendMessage E h c t \<noteq> ChatMigrated C"
  shows "sent (snd (for_entries E F data title es s)) = sent s @ new \<Longrightarrow> refused E C (sent s) new
    \<Longrightarrow> purged C F (snd (for_entries E F data title es s))"
proof (induction es arbitrary: s new)
  case Nil
  then show ?case by (simp add: refused_Nil)
next
  case (Cons e es)
  show ?case
  proof (cases "render E data title e")
    case (Inl x)
    with Cons.prems show ?thesis by (simp add: refused_Nil)
  next
    case (Inr msg)
    let ?d = "for_members E F msg (list_chats E (feed_subs s F)) s"
    from for_members_sent [of E F msg _ s] obtain n1 where n1: "sent (snd ?d) = sent s @ n1"
      by blast
    show ?thesis
    proof (cases "fst ?d")
      case None
      note eq = for_entries_Cons_None [OF Inr None, of es]
      from for_entries_sent [of E F data title es "snd ?d"] obtain n2
        where n2: "sent (snd (for_entries E F data title es (snd ?d))) = sent (snd ?d) @ n2"
        by blast
      with Cons.prems(1) n1 eq have new: "new = n1 @ n2" by simp
      with Cons.prems(2) refused_append [of E C "sent s" n1 n2]
      consider "refused E C (sent s) n1" | "refused E C (sent (snd ?d)) n2"
        using n1 by auto
      then show ?thesis
      proof cases
        case 1
        then have "purged C F (snd ?d)" by (rule for_members_refused [OF nm n1])
        then show ?thesis unfolding eq by (rule for_entries_keeps_purged [OF nm])
      next
        case 2
        then show ?thesis unfolding eq by (rule Cons.IH [OF n2])
      qed
    next
      case (Some x)
      note eq = for_entries_Cons_Some [OF Inr Some, of es]
      with Cons.prems n1 have "new = n1" by simp
      with Cons.prems(2) show ?thesis unfolding eq using for_members_refused [OF nm n1] by simp
    qed
  qed
qed

section \<open>The cycle around the loops\<close>

lemma key_feed_url_Some: "key_feed_url F = Some F' \<Longrightarrow> F' = F"
  by (simp add: key_feed_url_def split: if_splits)

lemma check_feed_returns_key: "fst (check_feed E F s) = None \<Longrightarrow> key_feed_url F = Some F"
  by (cases "key_feed_url F") (auto simp: check_feed_def dest: key_feed_url_Some)

lemma check_feed_ok:
  assumes "key_feed_url F = Some F" and "d_feed_link (parse E F) = Some fl"
  shows "check_feed E F s =
     (let title = (case d_feed_title (parse E F) of None \<Rightarrow> fl | Some t \<Rightarrow> t);
          new_entries = get_new_entries (d_entries (parse E F)) (last_entry s F)
      in
        (case for_entries E F (parse E F) title (rev new_entries) s of
           (Some x, s') \<Rightarrow> (Some x, s')
         | (None, s') \<Rightarrow>
             if feed_subs s' F = {} then (None, delete_last_entry F s')
             else
               (case new_entries of
                  [] \<Rightarrow> (None, s')
                | e0 # _ \<Rightarrow>
                    (case e_id e0 of
                       Some i \<Rightarrow> (None, set_last_entry F i s')
                     | None \<Rightarrow>
                         (case e_link e0 of
                            None \<Rightarrow> (Some AttributeError, s')
                          | Some l \<Rightarrow> (None, set_last_entry F l s'))))))"
  by (simp add: check_feed_def assms Let_def)

lemma check_feed_store:
  "feed_subs (snd (check_feed E F s)) = feed_subs (snd (for_entries E F (parse E F)
       (case d_feed_title (parse E F) of None \<Rightarrow> the (d_feed_link (parse E F)) | Some t \<Rightarrow> t)
       (rev (get_new_entries (d_entries (parse E F)) (last_entry s F))) s))
   \<and> chat_feeds (snd (check_feed E F s)) = chat_feeds (snd (for_entries E F (parse E F)
       (case d_feed_title (parse E F) of None \<Rightarrow> the (d_feed_link (parse E F)) | Some t \<Rightarrow> t)
       (rev (get_new_entries (d_entries (parse E F)) (last_entry s F))) s))
   \<and> sent (snd (check_feed E F s)) = sent (snd (for_entries E F (parse E F)
       (case d_feed_title (parse E F) of None \<Rightarrow> the (d_feed_link (parse E F)) | Some t \<Rightarrow> t)
       (rev (get_new_entries (d_entries (parse E F)) (last_entry s F))) s))"
  if "key_feed_url F = Some F" and "d_feed_link (parse E F) \<noteq> None"
proof -
  from that(2) obtain fl where fl: "d_feed_link (parse E F) = Some fl" by auto
  show ?thesis
    unfolding check_feed_ok [OF that(1) fl] fl
    by (auto simp: Let_def store_defs split: option.splits prod.splits list.splits)
qed

lemma check_feed_no_link:
  "key_feed_url F = None \<or> d_feed_link (parse E F) = None \<Longrightarrow>
     sent (snd (check_feed E F s)) = sent s \<and> feed_subs (snd (check_feed E F s)) = feed_subs s
     \<and> chat_feeds (snd (check_feed E F s)) = chat_feeds s
     \<and> last_entry (snd (check_feed E F s)) = last_entry s"
  by (cases "key_feed_url F")
    (auto simp: check_feed_def Let_def store_defs split: option.splits dest: key_feed_url_Some)

lemma check_feed_empty_subs:
  "fst (check_feed E F s) = None \<Longrightarrow> feed_subs (snd (check_feed E F s)) F = {} \<Longrightarrow>
     d_feed_link (parse E F) \<noteq> None \<Longrightarrow> last_entry (snd (check_feed E F s)) F = None"
proof -
  assume a: "fst (check_feed E F s) = None" "feed_subs (snd (check_feed E F s)) F = {}"
    "d_feed_link (parse E F) \<noteq> None"
  then obtain fl where fl: "d_feed_link (parse E F) = Some fl" by auto
  note kf = check_feed_returns_key [OF a(1)]
  from a(1,2) show ?thesis
    unfolding check_feed_ok [OF kf fl]
    by (auto simp: Let_def store_defs split: option.splits prod.splits list.splits if_splits)
qed

section \<open>A feed that cannot be fetched\<close>

text \<open>
  C8, as the code has it. What \<^verbatim>\<open>check_feed\<close> treats as a failure is a parse
  result without a feed link (line 270). For such a feed the cycle changes no
  key of the store (chat feed sets, subscriber sets and markers are what they
  were) and attempts no delivery, so the feed is polled again at the next
  tick. When the key yields the URL and the result carries a status \<open>c\<close> other
  than 200, the call returns and the log gains exactly the warning with that
  status; when the status is 200 or missing and the result carries a
  \<^verbatim>\<open>bozo_exception\<close> \<open>b\<close>, it returns and the log gains exactly the warning with
  \<open>b\<close>.
\<close>

theorem check_feed_fetch_failure:
  assumes "d_feed_link (parse E F) = None"
  shows "chat_feeds (snd (check_feed E F s)) = chat_feeds s
     \<and> feed_subs (snd (check_feed E F s)) = feed_subs s
     \<and> last_entry (snd (check_feed E F s)) = last_entry s
     \<and> sent (snd (check_feed E F s)) = sent s
     \<and> (\<forall>c. key_feed_url F = Some F \<and> d_status (parse E F) = Some c \<and> c \<noteq> 200
            \<longrightarrow> check_feed E F s = (None, s\<lparr>logged := logged s @ [Warn_http_code F c]\<rparr>))
     \<and> (\<forall>b. key_feed_url F = Some F
              \<and> (d_status (parse E F) = None \<or> d_status (parse E F) = Some 200)
              \<and> d_bozo_exception (parse E F) = Some b
            \<longrightarrow> check_feed E F s = (None, s\<lparr>logged := logged s @ [Warn_not_valid F b]\<rparr>))"
proof -
  have "check_feed E F s = (None, s\<lparr>logged := logged s @ [Warn_http_code F c]\<rparr>)"
    if "key_feed_url F = Some F" "d_status (parse E F) = Some c" "c \<noteq> 200" for c
    using that assms by (simp add: check_feed_def Let_def write_log_def)
  moreover have "check_feed E F s = (None, s\<lparr>logged := logged s @ [Warn_not_valid F b]\<rparr>)"
    if "key_feed_url F = Some F" "d_status (parse E F) = None \<or> d_status (parse E F) = Some 200"
      "d_bozo_exception (parse E F) = Some b" for b
    using that assms by (auto simp: check_feed_def Let_def write_log_def)
  ultimately show ?thesis
    using check_feed_no_link [of F E s] assms by blast
qed

theorem check_feed_fetch_failure_witness:
  "check_feed not_found_env ''http://example.org/feed'' demo_state
     = (None, demo_state\<lparr>logged := [Warn_http_code ''http://example.org/feed'' 404]\<rparr>)
   \<and> check_feed malformed_env ''http://example.org/feed'' demo_state
     = (None, demo_state\<lparr>logged := [Warn_not_valid ''http://example.org/feed'' ''not well-formed'']\<rparr>)"
proof -
  let ?F = "''http://example.org/feed''"
  have l: "d_feed_link (parse not_found_env ?F) = None" "d_feed_link (parse malformed_env ?F) = None"
    and st: "d_status (parse not_found_env ?F) = Some 404" "d_status (parse malformed_env ?F) = Some 200"
    and b: "d_bozo_exception (parse malformed_env ?F) = Some ''not well-formed''"
    by (simp_all add: not_found_env_def malformed_env_def demo_env_def demo_feed_def)
  have k: "key_feed_url ?F = Some ?F" by (simp add: key_feed_url_def)
  have lg: "logged demo_state = []" by (simp add: demo_state_def)
  show ?thesis
    using check_feed_fetch_failure [OF l(1), of demo_state] check_feed_fetch_failure [OF l(2), of demo_state]
      st b k
    by (simp add: lg)
qed

text \<open>
  The claim as the spec states it fails: a status other than 200 is no
  failure by itself. The feed arrives with status 500 and a feed link; the
  cycle sends the new entry, moves the marker from \<open>b\<close> to \<open>c\<close> and logs nothing.
\<close>

theorem check_feed_fetch_failure_counterexample:
  "d_status (parse status_500_env ''http://example.org/feed'') = Some 500
   \<and> last_entry seen_b_state ''http://example.org/feed'' = Some ''b''
   \<and> fst (check_feed status_500_env ''http://example.org/feed'' seen_b_state) = None
   \<and> map fst (sent (snd (check_feed status_500_env ''http://example.org/feed'' seen_b_state))) = [7]
   \<and> last_entry (snd (check_feed status_500_env ''http://example.org/feed'' seen_b_state))
        ''http://example.org/feed'' = Some ''c''
   \<and> logged (snd (check_feed status_500_env ''http://example.org/feed'' seen_b_state)) = []"
  by code_simp

section \<open>New entries are delivered oldest first\<close>

lemma for_members_all_sent:
  assumes "\<forall>h c t. sendMessage E h c t = Sent"
  shows "for_members E F msg ms s = (None, s\<lparr>sent := sent s @ map (\<lambda>m. (m, msg)) ms\<rparr>)"
proof (induction ms arbitrary: s)
  case Nil
  show ?case by simp
next
  case (Cons m ms)
  have d: "deliver E F msg m s = (None, s\<lparr>sent := sent s @ [(m, msg)]\<rparr>)"
    using assms by (simp add: deliver_all_sent)
  show ?case by (simp add: d Cons.IH)
qed

lemma for_entries_all_sent:
  assumes "\<forall>h c t. sendMessage E h c t = Sent"
  shows "\<forall>e\<in>set es. render E data title e = Inr (body e) \<Longrightarrow>
     for_entries E F data title es s
       = (None, s\<lparr>sent := sent s
            @ concat (map (\<lambda>e. map (\<lambda>c. (c, body e)) (list_chats E (feed_subs s F))) es)\<rparr>)"
proof (induction es arbitrary: s)
  case Nil
  show ?case by simp
next
  case (Cons e es)
  then have r: "render E data title e = Inr (body e)"
    and rest: "\<forall>e\<in>set es. render E data title e = Inr (body e)"
    by simp_all
  show ?case
    by (simp add: r for_members_all_sent [OF assms] Cons.IH [OF rest])
qed

lemma entries_before_split:
  "\<forall>e\<in>set pre. \<not> entry_matches e m \<Longrightarrow> entry_matches x m \<Longrightarrow>
     entries_before (pre @ x # post) m = Some pre"
  by (induction pre) simp_all

lemma for_members_texts:
  "\<exists>k. map snd (drop (length (sent s)) (sent (snd (for_members E F msg ms s)))) = replicate k msg"
proof (induction ms arbitrary: s)
  case Nil
  show ?case by (simp add: exI [of _ 0])
next
  case (Cons m ms)
  let ?d = "deliver E F msg m s"
  from deliver_sent [of E F msg m s]
  obtain j where j: "sent (snd ?d) = sent s @ replicate j (m, msg)"
    by (metis replicate.simps(1) replicate_Suc)
  show ?case
  proof (cases "fst ?d")
    case None
    from for_members_sent [of E F msg ms "snd ?d"] obtain n2
      where n2: "sent (snd (for_members E F msg ms (snd ?d))) = sent (snd ?d) @ n2"
      by blast
    from Cons.IH [of "snd ?d"] obtain k where "map snd n2 = replicate k msg"
      using n2 by auto
    then have "map snd (drop (length (sent s)) (sent (snd (for_members E F msg ms (snd ?d)))))
        = replicate (j + k) msg"
      using n2 j by (simp add: replicate_add)
    then show ?thesis
      unfolding for_members_Cons_None [OF None] by blast
  next
    case (Some x)
    have "map snd (drop (length (sent s)) (sent (snd ?d))) = replicate j msg"
      using j by simp
    then show ?thesis
      unfolding for_members_Cons_Some [OF Some] by blast
  qed
qed

lemma for_entries_renders:
  "fst (for_entries E F data title es s) = None \<Longrightarrow> e \<in> set es \<Longrightarrow>
     \<exists>t. render E data title e = Inr t"
proof (induction es arbitrary: s)
  case Nil
  then show ?case by simp
next
  case (Cons a es)
  show ?case
  proof (cases "render E data title a")
    case (Inl x)
    with Cons.prems(1) show ?thesis by simp
  next
    case (Inr msg)
    let ?d = "for_members E F msg (list_chats E (feed_subs s F)) s"
    show ?thesis
    proof (cases "fst ?d")
      case None
      from Cons.prems(1) have rest: "fst (for_entries E F data title es (snd ?d)) = None"
        by (simp only: for_entries_Cons_None [OF Inr None])
      from Cons.prems(2) consider "e = a" | "e \<in> set es" by auto
      then show ?thesis
      proof cases
        case 1
        with Inr show ?thesis by simp
      next
        case 2
        then show ?thesis by (rule Cons.IH [OF rest])
      qed
    next
      case (Some x)
      with Cons.prems(1) show ?thesis
        by (simp only: for_entries_Cons_Some [OF Inr Some]) simp
    qed
  qed
qed

lemma for_entries_texts:
  "fst (for_entries E F data title es s) = None \<Longrightarrow>
     \<exists>ks. length ks = length es
       \<and> map snd (drop (length (sent s)) (sent (snd (for_entries E F data title es s))))
           = concat (map (\<lambda>(k, e). replicate k (case render E data title e of Inl _ \<Rightarrow> [] | Inr t \<Rightarrow> t))
                      (zip ks es))"
proof (induction es arbitrary: s)
  case Nil
  then show ?case by simp
next
  case (Cons a es)
  show ?case
  proof (cases "render E data title a")
    case (Inl x)
    with Cons.prems show ?thesis by simp
  next
    case (Inr msg)
    let ?d = "for_members E F msg (list_chats E (feed_subs s F)) s"
    show ?thesis
    proof (cases "fst ?d")
      case None
      note eq = for_entries_Cons_None [OF Inr None, of es]
      from for_members_sent [of E F msg _ s] obtain n1 where n1: "sent (snd ?d) = sent s @ n1"
        by blast
      from for_members_texts [of s E F msg "list_chats E (feed_subs s F)"] n1
      obtain k where k: "map snd n1 = replicate k msg" by auto
      from for_entries_sent [of E F data title es "snd ?d"] obtain n2
        where n2: "sent (snd (for_entries E F data title es (snd ?d))) = sent (snd ?d) @ n2"
        by blast
      from Cons.prems eq have "fst (for_entries E F data title es (snd ?d)) = None" by simp
      from Cons.IH [OF this] n2 obtain ks where ks: "length ks = length es"
        "map snd n2 = concat (map (\<lambda>(k, e). replicate k (case render E data title e of Inl _ \<Rightarrow> [] | Inr t \<Rightarrow> t))
                      (zip ks es))"
        by auto
      have "length (k # ks) = length (a # es)" using ks(1) by simp
      moreover have "map snd (drop (length (sent s)) (sent (snd (for_entries E F data title (a # es) s))))
          = concat (map (\<lambda>(k, e). replicate k (case render E data title e of Inl _ \<Rightarrow> [] | Inr t \<Rightarrow> t))
                      (zip (k # ks) (a # es)))"
        unfolding eq using n1 n2 k ks(2) Inr by simp
      ultimately show ?thesis by blast
    next
      case (Some x)
      with Cons.prems show ?thesis
        by (simp only: for_entries_Cons_Some [OF Inr Some]) simp
    qed
  qed
qed

lemma for_entries_all_sent_store:
  assumes "\<forall>h c t. sendMessage E h c t = Sent" and "fst (for_entries E F data title es s) = None"
  shows "for_entries E F data title es s
       = (None, s\<lparr>sent := sent s
            @ concat (map (\<lambda>e. map (\<lambda>c. (c, case render E data title e of Inl _ \<Rightarrow> [] | Inr t \<Rightarrow> t))
                                (list_chats E (feed_subs s F))) es)\<rparr>)"
proof -
  have "\<forall>e\<in>set es. render E data title e
      = Inr ((\<lambda>e. case render E data title e of Inl _ \<Rightarrow> [] | Inr t \<Rightarrow> t) e)"
    using for_entries_renders [OF assms(2)] by fastforce
  then show ?thesis by (rule for_entries_all_sent [OF assms(1)])
qed

text \<open>
  C1, as the code has it. The feed is fetched with a feed link; its entries,
  newest first, are \<open>(e0 # mid) @ x # post\<close>, where \<open>x\<close> is the first entry that
  matches the stored marker \<open>m\<close> (its id is \<open>m\<close>, or it has no id and its link
  is \<open>m\<close>); and the poll cycle returns. Then the attempts of the cycle follow
  the earlier ones, and their texts are those of the entries before the match
  from the oldest to the newest, each some number of times. If the feed still
  has a subscriber afterwards, the marker is the id of the newest entry \<open>e0\<close>,
  or its link when it has no id; if every subscriber was removed, the marker
  is deleted. When the transport accepts every message, the attempts are
  exactly those entries, oldest first, each sent to every subscriber, and the
  subscriber sets and chat feed sets are what they were.
\<close>

theorem check_feed_delivers_new_entries:
  assumes "d_feed_link (parse E F) \<noteq> None"
    and "d_entries (parse E F) = (e0 # mid) @ x # post"
    and "last_entry s F = Some m"
    and "\<forall>e\<in>set (e0 # mid). \<not> entry_matches e m"
    and "entry_matches x m"
    and "fst (check_feed E F s) = None"
  shows "take (length (sent s)) (sent (snd (check_feed E F s))) = sent s
     \<and> (\<exists>ks. length ks = length (e0 # mid)
           \<and> map snd (drop (length (sent s)) (sent (snd (check_feed E F s))))
               = concat (map (\<lambda>(k, e). replicate k (rendered E F e)) (zip ks (rev (e0 # mid)))))
     \<and> (feed_subs (snd (check_feed E F s)) F \<noteq> {} \<longrightarrow>
           last_entry (snd (check_feed E F s)) F
             = (case e_id e0 of Some i \<Rightarrow> Some i | None \<Rightarrow> e_link e0)
           \<and> last_entry (snd (check_feed E F s)) F \<noteq> None)
     \<and> (feed_subs (snd (check_feed E F s)) F = {} \<longrightarrow> last_entry (snd (check_feed E F s)) F = None)
     \<and> ((\<forall>h c t. sendMessage E h c t = Sent) \<longrightarrow>
           sent (snd (check_feed E F s))
             = sent s @ concat (map (\<lambda>e. map (\<lambda>c. (c, rendered E F e)) (list_chats E (feed_subs s F)))
                                   (rev (e0 # mid)))
           \<and> feed_subs (snd (check_feed E F s)) = feed_subs s
           \<and> chat_feeds (snd (check_feed E F s)) = chat_feeds s)"
proof -
  obtain fl where fl: "d_feed_link (parse E F) = Some fl" using assms(1) by auto
  note kf = check_feed_returns_key [OF assms(6)]
  let ?title = "case d_feed_title (parse E F) of None \<Rightarrow> fl | Some t \<Rightarrow> t"
  have rd: "rendered E F e = (case render E (parse E F) ?title e of Inl _ \<Rightarrow> [] | Inr t \<Rightarrow> t)" for e
    by (cases "d_feed_title (parse E F)") (simp_all add: rendered_def fl)
  have new: "get_new_entries (d_entries (parse E F)) (last_entry s F) = e0 # mid"
    using entries_before_split [OF assms(4,5)] by (simp add: get_new_entries_def assms(2,3))
  let ?r = "for_entries E F (parse E F) ?title (rev (e0 # mid)) s"
  note cf = check_feed_ok [OF kf fl, of s, unfolded Let_def new]
  have fr: "fst ?r = None"
    using assms(6) unfolding cf by (auto split: prod.splits option.splits)
  then obtain s1 where r: "?r = (None, s1)" by (cases ?r) auto
  have st: "sent (snd (check_feed E F s)) = sent s1" "feed_subs (snd (check_feed E F s)) = feed_subs s1"
    "chat_feeds (snd (check_feed E F s)) = chat_feeds s1"
    unfolding cf r by (auto simp: store_defs split: option.splits)
  have le1: "last_entry s1 = last_entry s"
    using for_entries_last_entry [of E F "parse E F" ?title "rev (e0 # mid)" s] r by simp
  have pre: "take (length (sent s)) (sent s1) = sent s"
    using for_entries_sent [of E F "parse E F" ?title "rev (e0 # mid)" s] r by auto
  have texts: "\<exists>ks. length ks = length (e0 # mid)
           \<and> map snd (drop (length (sent s)) (sent s1))
               = concat (map (\<lambda>(k, e). replicate k (rendered E F e)) (zip ks (rev (e0 # mid))))"
    using for_entries_texts [OF fr] r unfolding rd by simp
  have m1: "last_entry (snd (check_feed E F s)) F = (case e_id e0 of Some i \<Rightarrow> Some i | None \<Rightarrow> e_link e0)
        \<and> last_entry (snd (check_feed E F s)) F \<noteq> None" if "feed_subs s1 F \<noteq> {}"
    using that assms(6) unfolding cf r
    by (auto simp: store_defs split: option.splits)
  have m2: "last_entry (snd (check_feed E F s)) F = None" if "feed_subs s1 F = {}"
    using that unfolding cf r by (simp add: store_defs)
  have all: "sent s1 = sent s @ concat (map (\<lambda>e. map (\<lambda>c. (c, rendered E F e)) (list_chats E (feed_subs s F)))
                                   (rev (e0 # mid)))
           \<and> feed_subs s1 = feed_subs s \<and> chat_feeds s1 = chat_feeds s"
    if "\<forall>h c t. sendMessage E h c t = Sent"
    using for_entries_all_sent_store [OF that fr] r unfolding rd by auto
  show ?thesis
    unfolding st using pre texts m1 m2 all by blast
qed

lemma demo_render:
  "render demo_env demo_feed ''Example'' (demo_entry ''c'' ''http://www.example.org/c'')
     = Inr (demo_text (demo_entry ''c'' ''http://www.example.org/c''))"
  "render demo_env demo_feed ''Example'' (demo_entry ''b'' ''http://www.example.org/b'')
     = Inr (demo_text (demo_entry ''b'' ''http://www.example.org/b''))"
  by code_simp+

lemma demo_text_b:
  "demo_text (demo_entry ''b'' ''http://www.example.org/b'')
     = ''<b>b</b>'' @ [CHR 0x0A] @ ''<i>Example</i>'' @ [CHR 0x0A] @ [CHR 0x0A]
       @ ''<a href='' @ [CHR 0x22] @ ''http://www.example.org/b'' @ [CHR 0x22]
       @ ''>Read more on example.org</a>'' @ [CHR 0x0A]"
  by code_simp

lemma long_rendered:
  "rendered long_env ''http://example.org/feed'' (demo_entry ''c'' ''http://www.example.org/c'')
     = ''<b>c</b>'' @ [CHR 0x0A] @ ''<i>Example</i>'' @ [CHR 0x0A] @ [CHR 0x0A]
       @ ''<a href='' @ [CHR 0x22] @ ''http://www.example.org/c'' @ [CHR 0x22]
       @ ''>Read more on example.org</a>'' @ [CHR 0x0A]"
  "rendered long_env ''http://example.org/feed''
       \<lparr>e_id = None, e_link = Some ''http://www.example.org/d'', e_title = Some ''d'',
        e_content = None, e_summary = None\<rparr>
     = ''<b>d</b>'' @ [CHR 0x0A] @ ''<i>Example</i>'' @ [CHR 0x0A] @ [CHR 0x0A]
       @ ''<a href='' @ [CHR 0x22] @ ''http://www.example.org/d'' @ [CHR 0x22]
       @ ''>Read more on example.org</a>'' @ [CHR 0x0A]"
  by code_simp+

lemma long_check_feed_returns:
  "fst (check_feed long_env ''http://example.org/feed'' seen_b_state) = None"
  by code_simp

theorem check_feed_delivers_new_entries_witness:
  "d_entries (parse long_env ''http://example.org/feed'')
     = (\<lparr>e_id = None, e_link = Some ''http://www.example.org/d'', e_title = Some ''d'',
         e_content = None, e_summary = None\<rparr>
        # [demo_entry ''c'' ''http://www.example.org/c''])
       @ demo_entry ''b'' ''http://www.example.org/b'' # [demo_entry ''a'' ''http://www.example.org/a'']
   \<and> last_entry seen_b_state ''http://example.org/feed'' = Some ''b''
   \<and> fst (check_feed long_env ''http://example.org/feed'' seen_b_state) = None
   \<and> sent (snd (check_feed long_env ''http://example.org/feed'' seen_b_state))
       = [(7, ''<b>c</b>'' @ [CHR 0x0A] @ ''<i>Example</i>'' @ [CHR 0x0A] @ [CHR 0x0A]
              @ ''<a href='' @ [CHR 0x22] @ ''http://www.example.org/c'' @ [CHR 0x22]
              @ ''>Read more on example.org</a>'' @ [CHR 0x0A]),
          (7, ''<b>d</b>'' @ [CHR 0x0A] @ ''<i>Example</i>'' @ [CHR 0x0A] @ [CHR 0x0A]
              @ ''<a href='' @ [CHR 0x22] @ ''http://www.example.org/d'' @ [CHR 0x22]
              @ ''>Read more on example.org</a>'' @ [CHR 0x0A])]
   \<and> last_entry (snd (check_feed long_env ''http://example.org/feed'' seen_b_state))
         ''http://example.org/feed'' = Some ''http://www.example.org/d''"
proof -
  let ?F = "''http://example.org/feed''"
  let ?d = "\<lparr>e_id = None, e_link = Some ''http://www.example.org/d'', e_title = Some ''d'',
         e_content = None, e_summary = None\<rparr>"
  let ?c = "demo_entry ''c'' ''http://www.example.org/c''"
  let ?b = "demo_entry ''b'' ''http://www.example.org/b''"
  let ?a = "demo_entry ''a'' ''http://www.example.org/a''"
  have h1: "d_feed_link (parse long_env ?F) \<noteq> None"
    by (simp add: long_env_def long_feed_def demo_env_def demo_feed_def)
  have h2: "d_entries (parse long_env ?F) = (?d # [?c]) @ ?b # [?a]"
    by (simp add: long_env_def long_feed_def demo_env_def demo_feed_def)
  have h3: "last_entry seen_b_state ?F = Some ''b''"
    by (simp add: seen_b_state_def)
  have h4: "\<forall>e\<in>set (?d # [?c]). \<not> entry_matches e ''b''"
    by (simp add: entry_matches_def demo_entry_def)
  have h5: "entry_matches ?b ''b''"
    by (simp add: entry_matches_def demo_entry_def)
  have ok: "\<forall>h c t. sendMessage long_env h c t = Sent"
    by (simp add: long_env_def demo_env_def)
  have l: "list_chats long_env {7} = [7]"
    and s: "sent seen_b_state = []" and f: "feed_subs seen_b_state ?F = {7}"
    by (simp_all add: long_env_def demo_env_def seen_b_state_def demo_state_def)
  from check_feed_delivers_new_entries [OF h1 h2 h3 h4 h5 long_check_feed_returns] ok
  have "sent (snd (check_feed long_env ?F seen_b_state))
          = sent seen_b_state @ concat (map (\<lambda>e. map (\<lambda>c. (c, rendered long_env ?F e))
               (list_chats long_env (feed_subs seen_b_state ?F))) (rev (?d # [?c])))"
    and "feed_subs (snd (check_feed long_env ?F seen_b_state)) = feed_subs seen_b_state"
    and "feed_subs (snd (check_feed long_env ?F seen_b_state)) ?F \<noteq> {} \<longrightarrow>
           last_entry (snd (check_feed long_env ?F seen_b_state)) ?F
             = (case e_id ?d of Some i \<Rightarrow> Some i | None \<Rightarrow> e_link ?d)"
    by blast+
  then show ?thesis
    using h2 h3 long_check_feed_returns by (simp add: l s f long_rendered)
qed

text \<open>
  The claim as the spec states it fails where the only subscriber is refused:
  the marker \<open>b\<close> is the id of the middle entry, the new entry \<open>c\<close> is sent to
  chat 7, the transport answers Unauthorized, and the cycle ends with the
  marker deleted, not set to \<open>c\<close>.
\<close>

theorem check_feed_delivers_new_entries_counterexample:
  "last_entry seen_b_state ''http://example.org/feed'' = Some ''b''
   \<and> map e_id (d_entries (parse refusing_env ''http://example.org/feed''))
       = [Some ''c'', Some ''b'', Some ''a'']
   \<and> fst (check_feed refusing_env ''http://example.org/feed'' seen_b_state) = None
   \<and> map fst (sent (snd (check_feed refusing_env ''http://example.org/feed'' seen_b_state))) = [7]
   \<and> last_entry (snd (check_feed refusing_env ''http://example.org/feed'' seen_b_state))
        ''http://example.org/feed'' = None"
  by code_simp

section \<open>The first subscription to a feed\<close>

lemma long_subscribe:
  "fst (subscribe long_env (demo_update [''http://example.org/rss'']) fresh_state)
     = Reply (Added ''Example'')"
  by (simp add: subscribe_def demo_url demo_update_def target_chat_def demo_env_def demo_feed_def
      long_env_def long_feed_def entry_key_def html_escape_def escape_char_def Let_def fresh_state_simps)

text \<open>
  C5, as the code has it. A user who may use the bot subscribes a chat that
  resolves (and in which the bot is administrator, when the chat is named) to
  a URL that looks like one; the feed has a link, its canonical URL \<open>F\<close> is
  not yet in the chat's feed set and has no marker, its newest entry is \<open>e0\<close>,
  and the poll that follows fetches the same feed under \<open>F\<close>. If \<open>e0\<close> has
  neither id nor link, the handler ends with KeyError and the state is what it
  was. Otherwise it answers "added", the marker of \<open>F\<close> is the id of \<open>e0\<close>, or
  its link when it has no id, no delivery is attempted and the subscription is
  in both sets; the poll cycle that follows attempts no delivery and leaves
  the state as it is, and it returns whenever the key yields the URL.
\<close>

theorem subscribe_seeds_marker:
  assumes "u_can_use_bot u"
    and "u_args u = arg # rest"
    and "looks_like_url arg"
    and "target_chat E u = Some chat"
    and "rest = [] \<or> bot_status E chat = ''administrator''"
    and "d_feed_link (parse E arg) \<noteq> None"
    and "F = d_href (parse E arg)"
    and "F \<notin> chat_feeds s chat"
    and "last_entry s F = None"
    and "d_entries (parse E arg) = e0 # es"
    and "parse E F = parse E arg"
  shows "(e_id e0 = None \<and> e_link e0 = None \<longrightarrow> subscribe E u s = (Raised KeyError, s))
     \<and> (e_id e0 \<noteq> None \<or> e_link e0 \<noteq> None \<longrightarrow>
          (\<exists>t. fst (subscribe E u s) = Reply (Added t))
          \<and> last_entry (snd (subscribe E u s)) F
              = (case e_id e0 of Some i \<Rightarrow> Some i | None \<Rightarrow> e_link e0)
          \<and> sent (snd (subscribe E u s)) = sent s
          \<and> chat \<in> feed_subs (snd (subscribe E u s)) F
          \<and> F \<in> chat_feeds (snd (subscribe E u s)) chat
          \<and> snd (check_feed E F (snd (subscribe E u s))) = snd (subscribe E u s)
          \<and> sent (snd (check_feed E F (snd (subscribe E u s)))) = sent s
          \<and> (key_feed_url F = Some F \<longrightarrow> fst (check_feed E F (snd (subscribe E u s))) = None))"
proof -
  obtain fl where fl: "d_feed_link (parse E arg) = Some fl"
    using assms(6) by auto
  have adm: "\<not> (rest \<noteq> [] \<and> bot_status E chat \<noteq> ''administrator'')"
    using assms(5) by auto
  have none: "subscribe E u s = (Raised KeyError, s)" if "e_id e0 = None" "e_link e0 = None"
    using that assms(1-4,8-10) adm fl assms(7) [symmetric]
    by (simp add: subscribe_def Let_def entry_key_def)
  have some: ?thesis if k: "(case e_id e0 of Some i \<Rightarrow> Some i | None \<Rightarrow> e_link e0) = Some k" for k
  proof -
    let ?t = "case d_feed_title (parse E arg) of None \<Rightarrow> F | Some t \<Rightarrow> html_escape t"
    let ?s1 = "sadd_feeds chat F (sadd_subs F chat (set_last_entry F k s))"
    have sub: "subscribe E u s = (Reply (Added ?t), ?s1)"
      using k assms(1-4,8-10) adm fl assms(7) [symmetric]
      by (simp add: subscribe_def Let_def entry_key_def)
    have le: "last_entry ?s1 F = Some k" and se: "sent ?s1 = sent s" and fs: "feed_subs ?s1 F \<noteq> {}"
      and m: "chat \<in> feed_subs ?s1 F" "F \<in> chat_feeds ?s1 chat"
      by (simp_all add: sadd_feeds_def sadd_subs_def set_last_entry_def)
    have ek: "entry_key e0 = Some k" using k by (simp add: entry_key_def)
    have new: "get_new_entries (d_entries (parse E F)) (last_entry ?s1 F) = []"
      using entries_before_head [OF ek] by (simp add: get_new_entries_def le assms(10,11))
    have fl': "d_feed_link (parse E F) = Some fl" using fl assms(11) by simp
    have ok: "check_feed E F ?s1 = (None, ?s1)" if "key_feed_url F = Some F"
      using new fs by (simp add: check_feed_ok [OF that fl'] Let_def)
    have bad: "check_feed E F ?s1 = (Some AttributeError, ?s1)" if "key_feed_url F = None"
      using that by (simp add: check_feed_def)
    have "key_feed_url F = Some F \<or> key_feed_url F = None"
      using key_feed_url_Some [of F] by (cases "key_feed_url F") auto
    then have snd: "snd (check_feed E F ?s1) = ?s1"
      using ok bad by auto
    from k have "\<not> (e_id e0 = None \<and> e_link e0 = None)" by (auto split: option.splits)
    then show ?thesis
      using sub le se m snd ok k by simp
  qed
  show ?thesis
  proof (cases "e_id e0 = None \<and> e_link e0 = None")
    case True
    then show ?thesis using none by simp
  next
    case False
    then have "\<exists>k. (case e_id e0 of Some i \<Rightarrow> Some i | None \<Rightarrow> e_link e0) = Some k"
      by (cases "e_id e0") auto
    then show ?thesis using some by blast
  qed
qed

theorem subscribe_seeds_marker_witness:
  "fst (subscribe long_env (demo_update [''http://example.org/rss'']) fresh_state)
     = Reply (Added ''Example'')
   \<and> last_entry (snd (subscribe long_env (demo_update [''http://example.org/rss'']) fresh_state))
        ''http://example.org/feed'' = Some ''http://www.example.org/d''
   \<and> sent (snd (subscribe long_env (demo_update [''http://example.org/rss'']) fresh_state)) = []
   \<and> check_feed long_env ''http://example.org/feed''
        (snd (subscribe long_env (demo_update [''http://example.org/rss'']) fresh_state))
      = (None, snd (subscribe long_env (demo_update [''http://example.org/rss'']) fresh_state))
   \<and> last_entry (snd (subscribe demo_env (demo_update [''http://example.org/rss'']) fresh_state))
        ''http://example.org/feed'' = Some ''c''
   \<and> check_feed demo_env ''http://example.org/feed''
        (snd (subscribe demo_env (demo_update [''http://example.org/rss'']) fresh_state))
      = (None, snd (subscribe demo_env (demo_update [''http://example.org/rss'']) fresh_state))"
proof -
  let ?u = "demo_update [''http://example.org/rss'']"
  let ?F = "''http://example.org/feed''"
  let ?d = "\<lparr>e_id = None, e_link = Some ''http://www.example.org/d'', e_title = Some ''d'',
         e_content = None, e_summary = None\<rparr>"
  have u: "u_can_use_bot ?u" "u_args ?u = ''http://example.org/rss'' # []"
    by (simp_all add: demo_update_def)
  have t: "target_chat long_env ?u = Some 7" "target_chat demo_env ?u = Some 7"
    by (simp_all add: target_chat_def demo_update_def)
  have r: "[] = [] \<or> bot_status E 7 = ''administrator''" for E :: env by simp
  have fl: "d_feed_link (parse long_env ''http://example.org/rss'') \<noteq> None"
    "d_feed_link (parse demo_env ''http://example.org/rss'') \<noteq> None"
    and h: "?F = d_href (parse long_env ''http://example.org/rss'')"
    "?F = d_href (parse demo_env ''http://example.org/rss'')"
    and p: "parse long_env ?F = parse long_env ''http://example.org/rss''"
    "parse demo_env ?F = parse demo_env ''http://example.org/rss''"
    by (simp_all add: long_env_def long_feed_def demo_env_def demo_feed_def)
  have e: "d_entries (parse long_env ''http://example.org/rss'')
      = ?d # [demo_entry ''c'' ''http://www.example.org/c'', demo_entry ''b'' ''http://www.example.org/b'',
              demo_entry ''a'' ''http://www.example.org/a'']"
    "d_entries (parse demo_env ''http://example.org/rss'')
      = demo_entry ''c'' ''http://www.example.org/c''
        # [demo_entry ''b'' ''http://www.example.org/b'', demo_entry ''a'' ''http://www.example.org/a'']"
    by (simp_all add: long_env_def long_feed_def demo_env_def demo_feed_def)
  have n: "?F \<notin> chat_feeds fresh_state 7" "last_entry fresh_state ?F = None" "sent fresh_state = []"
    by (simp_all add: fresh_state_simps)
  have k: "key_feed_url ?F = Some ?F" by (simp add: key_feed_url_def)
  have i: "e_id (demo_entry ''c'' ''http://www.example.org/c'') = Some ''c''"
    by (simp add: demo_entry_def)
  show ?thesis
    using subscribe_seeds_marker [OF u demo_url t(1) r fl(1) h(1) n(1,2) e(1) p(1)]
      subscribe_seeds_marker [OF u demo_url t(2) r fl(2) h(2) n(1,2) e(2) p(2)]
      long_subscribe k n(3) i
    by (simp add: prod_eq_iff)
qed

text \<open>
  The claim as the spec states it fails for a feed whose newest entry has
  neither id nor link: line 204 raises KeyError, and neither a marker nor a
  subscription is stored.
\<close>

theorem subscribe_seeds_marker_counterexample:
  "last_entry fresh_state ''http://example.org/feed'' = None
   \<and> map e_id (d_entries (parse nameless_env ''http://example.org/rss'')) = [None]
   \<and> map e_link (d_entries (parse nameless_env ''http://example.org/rss'')) = [None]
   \<and> subscribe nameless_env (demo_update [''http://example.org/rss'']) fresh_state
       = (Raised KeyError, fresh_state)"
  by (simp add: subscribe_def demo_url demo_update_def target_chat_def demo_env_def demo_feed_def
      nameless_env_def entry_key_def Let_def fresh_state_simps)

section \<open>A chat that migrated\<close>

text \<open>
  What the handler of ChatMigrated does, for every input: the subscriber set
  of the feed gets the new id in place of the old one, and when the old chat
  has a feed set, that set moves to the new id and the message is sent once
  more, to the old id \<open>m\<close>.
\<close>

lemma deliver_migrated:
  assumes "sendMessage E (sent s) m msg = ChatMigrated n"
  shows "feed_subs (snd (deliver E F msg m s)) F = insert n (feed_subs s F - {m})
     \<and> (chat_feeds s m \<noteq> {} \<longrightarrow>
          sent (snd (deliver E F msg m s)) = sent s @ [(m, msg), (m, msg)]
          \<and> chat_feeds (snd (deliver E F msg m s)) = (chat_feeds s)(m := {}, n := chat_feeds s m))"
  using assms by (simp add: deliver_def Let_def store_defs)

text \<open>
  C2. Chat 7 is the only subscriber of the feed and one entry is new. The
  transport answers the first attempt with ChatMigrated to chat 8 and accepts
  every later one. The cycle returns; the subscriber set becomes \<open>{8}\<close> and
  the feed set of chat 7 moves to chat 8; both attempts of the cycle, the
  first and the repeated one, went to chat 7, and none to chat 8.
\<close>

theorem check_feed_migrated_retry:
  "fst (check_feed migrating_env ''http://example.org/feed'' seen_b_state) = None
   \<and> map fst (sent (snd (check_feed migrating_env ''http://example.org/feed'' seen_b_state))) = [7, 7]
   \<and> feed_subs (snd (check_feed migrating_env ''http://example.org/feed'' seen_b_state))
        ''http://example.org/feed'' = {8}
   \<and> chat_feeds (snd (check_feed migrating_env ''http://example.org/feed'' seen_b_state)) 8
        = {''http://example.org/feed''}
   \<and> chat_feeds (snd (check_feed migrating_env ''http://example.org/feed'' seen_b_state)) 7 = {}"
  by code_simp

section \<open>A chat that is unauthorized\<close>

lemma refusing_run:
  "fst (check_feed refusing_env ''http://example.org/feed'' two_feeds_state) = None"
  "sent (snd (check_feed refusing_env ''http://example.org/feed'' two_feeds_state))
     = [(7, demo_text (demo_entry ''c'' ''http://www.example.org/c''))]"
  "feed_subs (snd (check_feed refusing_env ''http://example.org/feed'' two_feeds_state))
     ''http://example.org/feed'' = {}"
  by code_simp+

text \<open>
  C3, as the code has it. During the poll cycle of feed \<open>F\<close> an attempt goes to
  chat \<open>C\<close> and the transport answers Unauthorized; no attempt of the cycle is
  answered with a migration to \<open>C\<close>. After the cycle \<open>C\<close> is not in the
  subscriber set of \<open>F\<close> and has no feed set of its own; the subscriber set of
  every other feed is what it was, so \<open>C\<close> is still in those it was in; and if
  the cycle returns with the subscriber set of \<open>F\<close> empty, \<open>F\<close> has no marker.
\<close>

theorem check_feed_unauthorized:
  assumes "\<forall>h c t. sendMessage E h c t \<noteq> ChatMigrated C"
    and "sent (snd (check_feed E F s)) = sent s @ a @ (C, t) # b"
    and "sendMessage E (sent s @ a) C t = Unauthorized"
  shows "C \<notin> feed_subs (snd (check_feed E F s)) F
     \<and> chat_feeds (snd (check_feed E F s)) C = {}
     \<and> (\<forall>G. G \<noteq> F \<longrightarrow> feed_subs (snd (check_feed E F s)) G = feed_subs s G)
     \<and> (fst (check_feed E F s) = None \<and> feed_subs (snd (check_feed E F s)) F = {}
          \<longrightarrow> last_entry (snd (check_feed E F s)) F = None)"
proof -
  have kf: "key_feed_url F = Some F"
    using check_feed_no_link [of F E s] assms(2) key_feed_url_Some [of F]
    by (cases "key_feed_url F") auto
  have fl: "d_feed_link (parse E F) \<noteq> None"
    using check_feed_no_link [of F E s] assms(2) by auto
  let ?r = "for_entries E F (parse E F)
       (case d_feed_title (parse E F) of None \<Rightarrow> the (d_feed_link (parse E F)) | Some t \<Rightarrow> t)
       (rev (get_new_entries (d_entries (parse E F)) (last_entry s F))) s"
  note st = check_feed_store [OF kf fl, of s]
  have ref: "refused E C (sent s) (a @ (C, t) # b)"
    using assms(3) unfolding refused_def by blast
  have "sent (snd ?r) = sent s @ a @ (C, t) # b"
    using st assms(2) by simp
  then have "purged C F (snd ?r)"
    using ref by (rule for_entries_refused [OF assms(1)])
  then have p: "C \<notin> feed_subs (snd (check_feed E F s)) F \<and> chat_feeds (snd (check_feed E F s)) C = {}"
    using st by (simp add: purged_def)
  have o: "\<forall>G. G \<noteq> F \<longrightarrow> feed_subs (snd (check_feed E F s)) G = feed_subs s G"
    using st by (simp add: for_entries_other_feed)
  from p o check_feed_empty_subs [OF _ _ fl, of s] show ?thesis by blast
qed

theorem check_feed_unauthorized_witness:
  "7 \<notin> feed_subs (snd (check_feed refusing_env ''http://example.org/feed'' two_feeds_state))
         ''http://example.org/feed''
   \<and> chat_feeds (snd (check_feed refusing_env ''http://example.org/feed'' two_feeds_state)) 7 = {}
   \<and> feed_subs (snd (check_feed refusing_env ''http://example.org/feed'' two_feeds_state))
         ''http://example.net/feed'' = {7}
   \<and> last_entry (snd (check_feed refusing_env ''http://example.org/feed'' two_feeds_state))
         ''http://example.org/feed'' = None"
proof -
  let ?t = "demo_text (demo_entry ''c'' ''http://www.example.org/c'')"
  have h1: "\<forall>h c t. sendMessage refusing_env h c t \<noteq> ChatMigrated 7"
    by (simp add: refusing_env_def)
  have s: "sent two_feeds_state = []" by (simp add: two_feeds_state_def)
  have h2: "sent (snd (check_feed refusing_env ''http://example.org/feed'' two_feeds_state))
      = sent two_feeds_state @ [] @ (7, ?t) # []"
    by (simp add: s refusing_run)
  have h3: "sendMessage refusing_env (sent two_feeds_state @ []) 7 ?t = Unauthorized"
    by (simp add: refusing_env_def)
  have g: "feed_subs two_feeds_state ''http://example.net/feed'' = {7}"
    by (simp add: two_feeds_state_def)
  show ?thesis
    using check_feed_unauthorized [OF h1 h2 h3] refusing_run(1,3) g by simp
qed

text \<open>
  The claim as the spec states it fails: chat 7 is subscribed to two feeds,
  the cycle of the first is answered Unauthorized, and chat 7 is still in the
  subscriber set of the second afterwards.
\<close>

theorem check_feed_unauthorized_counterexample:
  "sendMessage refusing_env [] 7 (demo_text (demo_entry ''c'' ''http://www.example.org/c'')) = Unauthorized
   \<and> sent (snd (check_feed refusing_env ''http://example.org/feed'' two_feeds_state))
       = [(7, demo_text (demo_entry ''c'' ''http://www.example.org/c''))]
   \<and> 7 \<in> feed_subs (snd (check_feed refusing_env ''http://example.org/feed'' two_feeds_state))
         ''http://example.net/feed''"
  by code_simp

section \<open>Markers and subscriber sets\<close>

lemma unsubscribe_inv: "marker_inv s \<Longrightarrow> marker_inv (snd (unsubscribe E u s))"
  unfolding marker_inv_def unsubscribe_def Let_def
  by (auto simp: store_defs split: list.splits option.splits if_splits)

lemma subscribe_inv:
  "marker_inv s \<Longrightarrow> \<forall>arg rest. u_args u = arg # rest \<longrightarrow> d_entries (parse E arg) \<noteq> [] \<Longrightarrow>
     marker_inv (snd (subscribe E u s))"
  unfolding marker_inv_def subscribe_def Let_def
  by (auto simp: store_defs split: list.splits option.splits if_splits)

lemma check_feed_inv:
  assumes "marker_inv s" and "fst (check_feed E F s) = None"
  shows "marker_inv (snd (check_feed E F s))"
proof (cases "d_feed_link (parse E F)")
  case None
  with assms(1) check_feed_no_link [of F E s] show ?thesis
    by (simp add: marker_inv_def)
next
  case (Some fl)
  note kf = check_feed_returns_key [OF assms(2)]
  let ?new = "get_new_entries (d_entries (parse E F)) (last_entry s F)"
  let ?title = "case d_feed_title (parse E F) of None \<Rightarrow> fl | Some t \<Rightarrow> t"
  let ?r = "for_entries E F (parse E F) ?title (rev ?new) s"
  have le: "last_entry (snd ?r) = last_entry s" by (rule for_entries_last_entry)
  have fo: "\<And>G. G \<noteq> F \<Longrightarrow> feed_subs (snd ?r) G = feed_subs s G" by (rule for_entries_other_feed)
  have fstr: "fst ?r = None"
    using assms(2) by (auto simp: check_feed_ok [OF kf Some] Let_def split: prod.splits option.splits)
  then obtain s1 where r: "?r = (None, s1)" by (cases ?r) auto
  have le1: "last_entry s1 = last_entry s" and fo1: "\<And>G. G \<noteq> F \<Longrightarrow> feed_subs s1 G = feed_subs s G"
    using le fo r by simp_all
  show ?thesis
  proof (cases "feed_subs s1 F = {}")
    case True
    then have "check_feed E F s = (None, delete_last_entry F s1)"
      using r by (simp add: check_feed_ok [OF kf Some] Let_def)
    with assms(1) le1 fo1 True show ?thesis
      by (auto simp: marker_inv_def delete_last_entry_def)
  next
    case False
    show ?thesis
    proof (cases ?new)
      case Nil
      with r have "s1 = s" by simp
      with Nil r False have "check_feed E F s = (None, s)"
        by (simp add: check_feed_ok [OF kf Some] Let_def)
      with assms(1) show ?thesis by simp
    next
      case (Cons e0 es)
      with assms(2) r False obtain k where "check_feed E F s = (None, set_last_entry F k s1)"
        by (auto simp: check_feed_ok [OF kf Some] Let_def split: option.splits)
      with assms(1) le1 fo1 False show ?thesis
        by (auto simp: marker_inv_def set_last_entry_def)
    qed
  qed
qed

lemma marker_inv_demo: "marker_inv demo_state" "marker_inv fresh_state"
  by (simp_all add: marker_inv_def demo_state_def fresh_state_def)

lemma empty_feed_subscribe:
  "subscribe empty_feed_env (demo_update [''http://example.org/rss'']) fresh_state
     = (Reply (Added ''Example''),
        sadd_feeds 7 ''http://example.org/feed'' (sadd_subs ''http://example.org/feed'' 7 fresh_state))"
  by (simp add: subscribe_def demo_url demo_update_def target_chat_def demo_env_def demo_feed_def
      empty_feed_env_def html_escape_def escape_char_def Let_def fresh_state_simps)

lemma demo_unsubscribe:
  "unsubscribe demo_env (demo_update [''1'']) demo_state
     = (Reply (Removed ''http://example.org/feed''),
        delete_last_entry ''http://example.org/feed''
          (srem_subs ''http://example.org/feed'' 7 (srem_feeds 7 ''http://example.org/feed'' demo_state)))"
  by (simp add: unsubscribe_def demo_update_def target_chat_def demo_env_def decimal_def is_digit_def
      demo_state_def Let_def srem_subs_def srem_feeds_def)

lemma demo_check_feed_returns: "fst (check_feed demo_env ''http://example.org/feed'' demo_state) = None"
  by code_simp

text \<open>
  C4, as the code has it. From a state where a feed has a marker iff it has a
  subscriber, the same holds after Unsubscribe, after a poll cycle that
  returns (whatever the transport answered), and after Subscribe when the
  fetched feed has at least one entry.
\<close>

theorem marker_invariant_preserved:
  assumes "marker_inv s"
  shows "marker_inv (snd (unsubscribe E u s))
     \<and> (fst (check_feed E F s) = None \<longrightarrow> marker_inv (snd (check_feed E F s)))
     \<and> ((\<forall>arg rest. u_args u = arg # rest \<longrightarrow> d_entries (parse E arg) \<noteq> [])
          \<longrightarrow> marker_inv (snd (subscribe E u s)))"
  using unsubscribe_inv [OF assms] check_feed_inv [OF assms] subscribe_inv [OF assms] by blast

theorem marker_invariant_preserved_witness:
  "marker_inv demo_state
   \<and> fst (unsubscribe demo_env (demo_update [''1'']) demo_state) = Reply (Removed ''http://example.org/feed'')
   \<and> marker_inv (snd (unsubscribe demo_env (demo_update [''1'']) demo_state))
   \<and> fst (check_feed demo_env ''http://example.org/feed'' demo_state) = None
   \<and> marker_inv (snd (check_feed demo_env ''http://example.org/feed'' demo_state))
   \<and> marker_inv (snd (subscribe demo_env (demo_update [''1'']) demo_state))"
proof -
  have e: "\<forall>arg rest. u_args (demo_update [''1'']) = arg # rest \<longrightarrow> d_entries (parse demo_env arg) \<noteq> []"
    by (simp add: demo_env_def demo_feed_def)
  show ?thesis
    using marker_invariant_preserved [OF marker_inv_demo(1), of demo_env "demo_update [''1'']"
        "''http://example.org/feed''"]
      e demo_check_feed_returns marker_inv_demo(1)
    by (simp add: demo_unsubscribe)
qed

text \<open>
  The claim as the spec states it fails for a feed without entries: the first
  subscription adds chat 7 to the subscriber set and stores no marker.
\<close>

theorem marker_invariant_counterexample:
  "marker_inv fresh_state
   \<and> fst (subscribe empty_feed_env (demo_update [''http://example.org/rss'']) fresh_state)
       = Reply (Added ''Example'')
   \<and> feed_subs (snd (subscribe empty_feed_env (demo_update [''http://example.org/rss'']) fresh_state))
        ''http://example.org/feed'' = {7}
   \<and> last_entry (snd (subscribe empty_feed_env (demo_update [''http://example.org/rss'']) fresh_state))
        ''http://example.org/feed'' = None
   \<and> \<not> marker_inv (snd (subscribe empty_feed_env (demo_update [''http://example.org/rss'']) fresh_state))"
proof -
  let ?s = "snd (subscribe empty_feed_env (demo_update [''http://example.org/rss'']) fresh_state)"
  have a: "feed_subs ?s ''http://example.org/feed'' = {7}"
    and b: "last_entry ?s ''http://example.org/feed'' = None"
    by (simp_all add: empty_feed_subscribe sadd_feeds_def sadd_subs_def fresh_state_simps)
  have "\<not> marker_inv ?s"
    unfolding marker_inv_def using a b by (metis insert_not_empty)
  with a b marker_inv_demo(2) show ?thesis
    by (simp add: empty_feed_subscribe)
qed

text \<open>
  A cycle that an exception ends does not reach the clean-up of line 345:
  here the older new entry is refused, which empties the subscriber set, and
  the newest one has no link, so \<^verbatim>\<open>data.link\<close> is read and missing.
\<close>

lemma check_feed_exception_keeps_marker:
  "fst (check_feed linkless_env ''http://example.org/feed'' two_feeds_state) = Some AttributeError
   \<and> feed_subs (snd (check_feed linkless_env ''http://example.org/feed'' two_feeds_state))
        ''http://example.org/feed'' = {}
   \<and> last_entry (snd (check_feed linkless_env ''http://example.org/feed'' two_feeds_state))
        ''http://example.org/feed'' = Some ''b''"
  by code_simp

section \<open>The name shown for the link of an entry\<close>

lemma remove_www_dot: "remove_www (''www.'' @ r) = r"
  by (simp add: remove_www_def after_prefix_def is_digit_def)

lemma remove_www_digit: "is_digit d \<Longrightarrow> remove_www (''www'' @ d # CHR ''.'' # r) = r"
  by (simp add: remove_www_def after_prefix_def)

lemma remove_www_other:
  assumes "\<forall>r. n \<noteq> ''www.'' @ r" and "\<forall>d r. is_digit d \<longrightarrow> n \<noteq> ''www'' @ d # CHR ''.'' # r"
  shows "remove_www n = n"
proof (cases "after_prefix ''www'' n")
  case None
  then show ?thesis by (simp add: remove_www_def)
next
  case (Some r)
  then have n: "n = ''www'' @ r"
    by (metis after_prefix_def append_take_drop_id option.distinct(1) option.inject)
  show ?thesis
  proof (cases r)
    case Nil
    with Some show ?thesis by (simp add: remove_www_def)
  next
    case (Cons c r')
    show ?thesis
    proof (cases "is_digit c")
      case True
      then have "r' = [] \<or> hd r' \<noteq> CHR ''.''"
        using assms(2) n Cons by (cases r') auto
      with True Some Cons show ?thesis
        by (cases r') (auto simp: remove_www_def)
    next
      case False
      then have "c \<noteq> CHR ''.''" using assms(1) n Cons by auto
      with False Some Cons show ?thesis by (simp add: remove_www_def)
    qed
  qed
qed

text \<open>
  C9, as the code has it. For an entry with a link, the target is that link
  and the name is a base with the match of \<^verbatim>\<open>^www\d?\.\<close> removed: a leading
  \<^verbatim>\<open>www.\<close>, or \<^verbatim>\<open>www\<close>, one digit and a dot; a base that starts with neither
  is the name as it is. The base is group 1 of the feedproxy pattern when the
  link matches it, and the host of the link otherwise.
\<close>

theorem link_name_of_linked_entry:
  assumes "e_link e = Some l"
  shows "link_name E data e =
       (case (case feedproxy l of Some g \<Rightarrow> Some g | None \<Rightarrow> netloc E l) of
          None \<Rightarrow> Inl ValueError
        | Some base \<Rightarrow> Inr (l, remove_www base))
     \<and> (\<forall>r. remove_www (''www.'' @ r) = r)
     \<and> (\<forall>d r. is_digit d \<longrightarrow> remove_www (''www'' @ d # CHR ''.'' # r) = r)
     \<and> (\<forall>n. (\<forall>r. n \<noteq> ''www.'' @ r) \<and> (\<forall>d r. is_digit d \<longrightarrow> n \<noteq> ''www'' @ d # CHR ''.'' # r)
            \<longrightarrow> remove_www n = n)"
proof -
  have "link_name E data e =
       (case (case feedproxy l of Some g \<Rightarrow> Some g | None \<Rightarrow> netloc E l) of
          None \<Rightarrow> Inl ValueError
        | Some base \<Rightarrow> Inr (l, remove_www base))"
    using assms by (simp add: link_name_def split: option.splits)
  then show ?thesis
    using remove_www_dot remove_www_digit remove_www_other by blast
qed

theorem link_name_of_linked_entry_witness:
  "e_link (demo_entry ''x'' ''http://www.example.org/x'') = Some ''http://www.example.org/x''
   \<and> link_name demo_env demo_feed (demo_entry ''x'' ''http://www.example.org/x'')
       = Inr (''http://www.example.org/x'', ''example.org'')
   \<and> link_name demo_env demo_feed (demo_entry ''y'' ''http://feedproxy.google.com/~r/Site/~3/y'')
       = Inr (''http://feedproxy.google.com/~r/Site/~3/y'', ''Site'')"
proof -
  have a: "e_link (demo_entry i l) = Some l" for i l
    by (simp add: demo_entry_def)
  have b: "feedproxy ''http://www.example.org/x'' = None"
    "netloc demo_env ''http://www.example.org/x'' = Some ''www.example.org''"
    "feedproxy ''http://feedproxy.google.com/~r/Site/~3/y'' = Some ''Site''"
    by (simp_all add: feedproxy_def after_http_def after_prefix_def demo_env_def host_of_def)
  have c: "remove_www ''www.example.org'' = ''example.org''" "remove_www ''Site'' = ''Site''"
    by (simp_all add: remove_www_def after_prefix_def is_digit_def)
  show ?thesis
    using link_name_of_linked_entry [OF a [of "''x''" "''http://www.example.org/x''"], of demo_env demo_feed]
      link_name_of_linked_entry [OF a [of "''y''" "''http://feedproxy.google.com/~r/Site/~3/y''"], of demo_env demo_feed]
    by (simp add: a b c)
qed

text \<open>
  The claim as the spec states it fails: the path segment \<^verbatim>\<open>www.site\<close> of a
  feedproxy link is shown as \<^verbatim>\<open>site\<close>, and the host \<^verbatim>\<open>www2.example.org\<close>,
  whose first label is not \<^verbatim>\<open>www\<close>, is shown as \<^verbatim>\<open>example.org\<close>.
\<close>

theorem link_name_counterexample:
  "feedproxy ''https://feedproxy.google.com/~r/www.site/~3/x'' = Some ''www.site''
   \<and> link_name demo_env demo_feed (demo_entry ''x'' ''https://feedproxy.google.com/~r/www.site/~3/x'')
       = Inr (''https://feedproxy.google.com/~r/www.site/~3/x'', ''site'')
   \<and> feedproxy ''http://www2.example.org/x'' = None
   \<and> netloc demo_env ''http://www2.example.org/x'' = Some ''www2.example.org''
   \<and> link_name demo_env demo_feed (demo_entry ''x'' ''http://www2.example.org/x'')
       = Inr (''http://www2.example.org/x'', ''example.org'')"
  by (simp add: feedproxy_def after_http_def after_prefix_def link_name_def demo_entry_def
      demo_env_def host_of_def remove_www_def is_digit_def)

end
